theory Spec2Isabelle
  imports Main "HOL-Library.Word"
begin

section \<open>The board's data model (src/src/App.tsx)\<close>

text \<open>
  The source file holds two revisions of the component, one after the other. They differ
  in styling only (the later one gives a column three more class-name strings); the types
  of the state and the four handlers that update it are the same text in both. The model
  follows the first revision.

  Identifiers (task ids, column ids) are only compared for equality and tested for
  emptiness, and the ones the program makes itself are ASCII, so they are HOL strings.
  Task content is text typed by the user, and \<open>String.prototype.trim\<close> looks at its
  UTF-16 code units, so content is a list of 16-bit words.
\<close>

type_synonym jsstring = "16 word list"

text \<open>
  \<open>type Task = { id: string; content: string }\<close>. The \<open>id\<close> is optional in the model,
  because the edit branch of \<open>handleModalSave\<close> spreads \<open>prev.tasks[id]\<close>, and the spread of
  \<open>undefined\<close> contributes no property: the object built there for a key that is not in
  \<open>tasks\<close> has a \<open>content\<close> and no \<open>id\<close>.
\<close>

record Task =
  id_Task :: "string option"
  content_Task :: jsstring

record Column =
  id_Column :: string
  title :: string
  color :: string
  accent :: string
  taskIds :: "string list"

record BoardData =
  tasks :: "string \<rightharpoonup> Task"
  columns :: "string \<rightharpoonup> Column"
  columnOrder :: "string list"

text \<open>The two pieces of React state beside the board: the task in the modal, the pending delete.\<close>

record ModalTask =
  id_ModalTask :: "string option"
  content_ModalTask :: jsstring
  columnId_ModalTask :: string

record Deleting =
  taskId :: string
  columnId :: string

text \<open>\<open>DropResult\<close> of react-beautiful-dnd, the fields \<open>onDragEnd\<close> reads. An index is an integer.\<close>

record DraggableLocation =
  droppableId :: string
  index :: int

record DropResult =
  destination :: "DraggableLocation option"
  source :: DraggableLocation
  draggableId :: string

record App =
  board :: BoardData
  showModal :: bool
  modalTask :: "ModalTask option"
  deleting :: "Deleting option"

text \<open>
  The only failure the handlers have: reading a property of \<open>undefined\<close>
  (\<open>prev.columns[k].taskIds\<close> for a key \<open>k\<close> that is not a column) throws a TypeError inside
  the state updater, and no new board is produced.
\<close>

datatype error = TypeError

section \<open>JavaScript primitives the handlers use\<close>

text \<open>
  \<open>Array.prototype.splice(start, deleteCount, ...items)\<close>, the array it leaves behind: a
  negative start counts from the end, a start beyond the end is the end, and the delete
  count is clamped to what is there.
\<close>

definition splice :: "'a list \<Rightarrow> int \<Rightarrow> int \<Rightarrow> 'a list \<Rightarrow> 'a list" where
  "splice xs start deleteCount items =
     (let len = int (length xs);
          actualStart = (if start < 0 then max (len + start) 0 else min start len);
          actualDeleteCount = min (max deleteCount 0) (len - actualStart)
      in take (nat actualStart) xs @ items @ drop (nat (actualStart + actualDeleteCount)) xs)"

text \<open>
  The code units \<open>trim\<close> strips: ECMAScript's WhiteSpace (TAB, VT, FF, SP, NBSP, ZWNBSP and
  the Unicode space separators) and LineTerminator (LF, CR, LS, PS).
\<close>

definition isWhiteSpace :: "16 word \<Rightarrow> bool" where
  "isWhiteSpace u \<longleftrightarrow>
     u = 0x9 \<or> u = 0xA \<or> u = 0xB \<or> u = 0xC \<or> u = 0xD \<or> u = 0x20 \<or> u = 0xA0 \<or>
     u = 0x1680 \<or> (0x2000 \<le> u \<and> u \<le> 0x200A) \<or> u = 0x2028 \<or> u = 0x2029 \<or>
     u = 0x202F \<or> u = 0x205F \<or> u = 0x3000 \<or> u = 0xFEFF"

definition trim :: "jsstring \<Rightarrow> jsstring" where
  "trim s = rev (dropWhile isWhiteSpace (rev (dropWhile isWhiteSpace s)))"

text \<open>
  \<open>"task-" + Date.now()\<close>: the clock reading is an integer number of milliseconds, far
  below the size where a number prints with an exponent, so its string is its decimal
  digits, with a minus sign before 1970.
\<close>

definition digit :: "nat \<Rightarrow> char" where
  "digit d = ''0123456789'' ! d"

fun digits :: "nat \<Rightarrow> string" where
  "digits n = (if n < 10 then [digit n] else digits (n div 10) @ [digit (n mod 10)])"

declare digits.simps [simp del]

definition numberToString :: "int \<Rightarrow> string" where
  "numberToString i = (if i < 0 then CHR ''-'' # digits (nat (- i)) else digits (nat i))"

definition newTaskId :: "int \<Rightarrow> string" where
  "newTaskId now = ''task-'' @ numberToString now"

text \<open>\<open>if (modalTask.id)\<close>: a missing id and the empty string are both falsy.\<close>

definition truthy :: "string option \<Rightarrow> bool" where
  "truthy i = (case i of None \<Rightarrow> False | Some s \<Rightarrow> s \<noteq> [])"

section \<open>The initial board\<close>

record ColumnDef =
  id_ColumnDef :: string
  title_ColumnDef :: string
  color_ColumnDef :: string
  accent_ColumnDef :: string

definition DEFAULT_COLUMNS :: "ColumnDef list" where
  "DEFAULT_COLUMNS =
     [\<lparr>id_ColumnDef = ''todo'', title_ColumnDef = ''To Do'',
       color_ColumnDef = ''bg-blue-100'', accent_ColumnDef = ''bg-blue-500''\<rparr>,
      \<lparr>id_ColumnDef = ''inprogress'', title_ColumnDef = ''In Progress'',
       color_ColumnDef = ''bg-yellow-100'', accent_ColumnDef = ''bg-yellow-500''\<rparr>,
      \<lparr>id_ColumnDef = ''done'', title_ColumnDef = ''Done'',
       color_ColumnDef = ''bg-green-100'', accent_ColumnDef = ''bg-green-500''\<rparr>]"

text \<open>
  \<open>getInitialData\<close>: the board parsed from local storage when there is one, else the three
  empty columns. The argument is what \<open>JSON.parse(saved)\<close> gives.
\<close>

definition getInitialData :: "BoardData option \<Rightarrow> BoardData" where
  "getInitialData saved =
     (case saved of
        Some b \<Rightarrow> b
      | None \<Rightarrow>
          \<lparr>tasks = Map.empty,
           columns =
             fold (\<lambda>col cols. cols(id_ColumnDef col \<mapsto>
                     \<lparr>id_Column = id_ColumnDef col, title = title_ColumnDef col,
                      color = color_ColumnDef col, accent = accent_ColumnDef col,
                      taskIds = []\<rparr>))
               DEFAULT_COLUMNS Map.empty,
           columnOrder = map id_ColumnDef DEFAULT_COLUMNS\<rparr>)"

definition initialApp :: App where
  "initialApp = \<lparr>board = getInitialData None, showModal = False, modalTask = None, deleting = None\<rparr>"

section \<open>The handlers\<close>

definition openNewTaskModal :: "string \<Rightarrow> App \<Rightarrow> App" where
  "openNewTaskModal cid st =
     st\<lparr>modalTask := Some \<lparr>id_ModalTask = None, content_ModalTask = [], columnId_ModalTask = cid\<rparr>,
        showModal := True\<rparr>"

text \<open>\<open>board.tasks[taskId].content\<close> throws when the task is not there.\<close>

definition openEditTaskModal :: "string \<Rightarrow> string \<Rightarrow> App \<Rightarrow> error + App" where
  "openEditTaskModal tid cid st =
     (case tasks (board st) tid of
        None \<Rightarrow> Inl TypeError
      | Some t \<Rightarrow>
          Inr (st\<lparr>modalTask := Some \<lparr>id_ModalTask = Some tid, content_ModalTask = content_Task t,
                                       columnId_ModalTask = cid\<rparr>,
                  showModal := True\<rparr>))"

text \<open>The text area's \<open>onChange\<close>: \<open>setModalTask(prev => prev ? {...prev, content: v} : prev)\<close>.\<close>

definition onChange :: "jsstring \<Rightarrow> App \<Rightarrow> App" where
  "onChange v st = st\<lparr>modalTask := map_option (\<lambda>m. m\<lparr>content_ModalTask := v\<rparr>) (modalTask st)\<rparr>"

definition closeModal :: "App \<Rightarrow> App" where
  "closeModal st = st\<lparr>showModal := False, modalTask := None\<rparr>"

text \<open>The updater of the edit branch: \<open>{...prev, tasks: {...prev.tasks, [id]: {...prev.tasks[id], content}}}\<close>.\<close>

definition editUpdater :: "string \<Rightarrow> jsstring \<Rightarrow> BoardData \<Rightarrow> BoardData" where
  "editUpdater tid c prev =
     prev\<lparr>tasks := (tasks prev)(tid \<mapsto>
        (case tasks prev tid of
           None \<Rightarrow> \<lparr>id_Task = None, content_Task = c\<rparr>
         | Some t \<Rightarrow> t\<lparr>content_Task := c\<rparr>))\<rparr>"

text \<open>The updater of the new branch; \<open>prev.columns[columnId].taskIds\<close> throws for a missing column.\<close>

definition newUpdater :: "string \<Rightarrow> string \<Rightarrow> jsstring \<Rightarrow> BoardData \<Rightarrow> error + BoardData" where
  "newUpdater nid cid c prev =
     (case columns prev cid of
        None \<Rightarrow> Inl TypeError
      | Some col \<Rightarrow>
          Inr (prev\<lparr>tasks := (tasks prev)(nid \<mapsto> \<lparr>id_Task = Some nid, content_Task = c\<rparr>),
                    columns := (columns prev)(cid \<mapsto> col\<lparr>taskIds := nid # taskIds col\<rparr>)\<rparr>))"

definition handleModalSave :: "int \<Rightarrow> App \<Rightarrow> error + App" where
  "handleModalSave now st =
     (case modalTask st of
        None \<Rightarrow> Inr st
      | Some m \<Rightarrow>
          if trim (content_ModalTask m) = [] then Inr st
          else if truthy (id_ModalTask m) then
            Inr (closeModal (st\<lparr>board := editUpdater (the (id_ModalTask m)) (content_ModalTask m) (board st)\<rparr>))
          else
            (case newUpdater (newTaskId now) (columnId_ModalTask m) (content_ModalTask m) (board st) of
               Inl e \<Rightarrow> Inl e
             | Inr b \<Rightarrow> Inr (closeModal (st\<lparr>board := b\<rparr>))))"

definition handleDeleteTask :: "string \<Rightarrow> string \<Rightarrow> App \<Rightarrow> App" where
  "handleDeleteTask tid cid st = st\<lparr>deleting := Some \<lparr>taskId = tid, columnId = cid\<rparr>\<rparr>"

text \<open>
  The updater of \<open>confirmDelete\<close>: the task leaves \<open>tasks\<close>, and the column named by the
  request gets its \<open>taskIds\<close> filtered.
\<close>

definition deleteUpdater :: "string \<Rightarrow> string \<Rightarrow> BoardData \<Rightarrow> error + BoardData" where
  "deleteUpdater tid cid prev =
     (case columns prev cid of
        None \<Rightarrow> Inl TypeError
      | Some col \<Rightarrow>
          Inr (prev\<lparr>tasks := (tasks prev)(tid := None),
                    columns := (columns prev)(cid \<mapsto> col\<lparr>taskIds := filter (\<lambda>i. i \<noteq> tid) (taskIds col)\<rparr>)\<rparr>))"

definition confirmDelete :: "App \<Rightarrow> error + App" where
  "confirmDelete st =
     (case deleting st of
        None \<Rightarrow> Inr st
      | Some d \<Rightarrow>
          (case deleteUpdater (taskId d) (columnId d) (board st) of
             Inl e \<Rightarrow> Inl e
           | Inr b \<Rightarrow> Inr (st\<lparr>board := b, deleting := None\<rparr>)))"

text \<open>
  The updater of \<open>onDragEnd\<close>. \<open>start === finish\<close> compares object identity: every key of
  \<open>columns\<close> holds an object of its own (the board comes from \<open>JSON.parse\<close> or from the
  updaters, which store a fresh object under one key), so two defined columns are the
  same object exactly when the two droppable ids are the same key, and a missing column
  throws on either path at \<open>.taskIds\<close>. The new columns are stored under their own \<open>id\<close>.
\<close>

definition dragUpdater :: "DraggableLocation \<Rightarrow> DraggableLocation \<Rightarrow> string \<Rightarrow> BoardData \<Rightarrow> error + BoardData" where
  "dragUpdater src dst did prev =
     (case columns prev (droppableId src) of
        None \<Rightarrow> Inl TypeError
      | Some start \<Rightarrow>
          if droppableId dst = droppableId src then
            (let newTaskIds = splice (splice (taskIds start) (index src) 1 []) (index dst) 0 [did];
                 newColumn = start\<lparr>taskIds := newTaskIds\<rparr>
             in Inr (prev\<lparr>columns := (columns prev)(id_Column newColumn \<mapsto> newColumn)\<rparr>))
          else
            (case columns prev (droppableId dst) of
               None \<Rightarrow> Inl TypeError
             | Some finish \<Rightarrow>
                 (let newStart = start\<lparr>taskIds := splice (taskIds start) (index src) 1 []\<rparr>;
                      newFinish = finish\<lparr>taskIds := splice (taskIds finish) (index dst) 0 [did]\<rparr>
                  in Inr (prev\<lparr>columns := (columns prev)(id_Column newStart \<mapsto> newStart,
                                                            id_Column newFinish \<mapsto> newFinish)\<rparr>))))"

definition onDragEnd :: "DropResult \<Rightarrow> App \<Rightarrow> error + App" where
  "onDragEnd result st =
     (case destination result of
        None \<Rightarrow> Inr st
      | Some dst \<Rightarrow>
          if droppableId dst = droppableId (source result) \<and> index dst = index (source result)
          then Inr st
          else
            (case dragUpdater (source result) dst (draggableId result) (board st) of
               Inl e \<Rightarrow> Inl e
             | Inr b \<Rightarrow> Inr (st\<lparr>board := b\<rparr>)))"

section \<open>Operations and runs\<close>

text \<open>
  The four operations of the board, as the gestures that reach the handlers: a task is
  created by opening the modal on a column, typing and saving; edited by opening the modal
  on the task, typing and saving; deleted by asking for the delete and confirming it;
  moved by a drop. Every operation happens at a clock reading. A run stops at the first
  operation that throws.
\<close>

datatype op =
    CreateTask string jsstring
  | EditTask string string jsstring
  | DeleteTask string string
  | MoveTask DropResult

fun perform :: "int \<Rightarrow> op \<Rightarrow> App \<Rightarrow> error + App" where
  "perform now (CreateTask cid c) st = handleModalSave now (onChange c (openNewTaskModal cid st))"
| "perform now (EditTask tid cid c) st =
     (case openEditTaskModal tid cid st of
        Inl e \<Rightarrow> Inl e
      | Inr s \<Rightarrow> handleModalSave now (onChange c s))"
| "perform now (DeleteTask tid cid) st = confirmDelete (handleDeleteTask tid cid st)"
| "perform now (MoveTask r) st = onDragEnd r st"

fun run :: "(int \<times> op) list \<Rightarrow> App \<Rightarrow> error + App" where
  "run [] st = Inr st"
| "run ((now, opn) # es) st =
     (case perform now opn st of Inl e \<Rightarrow> Inl e | Inr st' \<Rightarrow> run es st')"

text \<open>
  When an operation is valid on a board: the column of a creation exists and the content
  is not blank; the task of an edit exists and the content is not blank; the task of a
  delete exists and the request names the column that lists it (the delete button is
  drawn inside that column); the source column of a move exists, the source index holds
  the dragged id, and the destination column, if there is one, exists.
\<close>

fun precondition :: "BoardData \<Rightarrow> op \<Rightarrow> bool" where
  "precondition b (CreateTask cid c) = (trim c \<noteq> [] \<and> columns b cid \<noteq> None)"
| "precondition b (EditTask tid cid c) = (tasks b tid \<noteq> None \<and> trim c \<noteq> [])"
| "precondition b (DeleteTask tid cid) =
     (tasks b tid \<noteq> None \<and>
      (case columns b cid of None \<Rightarrow> False | Some col \<Rightarrow> tid \<in> set (taskIds col)))"
| "precondition b (MoveTask r) =
     (case columns b (droppableId (source r)) of
        None \<Rightarrow> False
      | Some start \<Rightarrow>
          0 \<le> index (source r) \<and> nat (index (source r)) < length (taskIds start) \<and>
          taskIds start ! nat (index (source r)) = draggableId r \<and>
          (case destination r of None \<Rightarrow> True | Some d \<Rightarrow> columns b (droppableId d) \<noteq> None))"

fun preconditionsHold :: "App \<Rightarrow> (int \<times> op) list \<Rightarrow> bool" where
  "preconditionsHold st [] = True"
| "preconditionsHold st ((now, opn) # es) =
     (precondition (board st) opn \<and>
      (case perform now opn st of Inl e \<Rightarrow> True | Inr st' \<Rightarrow> preconditionsHold st' es))"

text \<open>The id a creation generates from its clock reading is not yet a key of \<open>tasks\<close>.\<close>

fun freshId :: "BoardData \<Rightarrow> int \<Rightarrow> op \<Rightarrow> bool" where
  "freshId b now (CreateTask cid c) = (tasks b (newTaskId now) = None)"
| "freshId b now (EditTask tid cid c) = True"
| "freshId b now (DeleteTask tid cid) = True"
| "freshId b now (MoveTask r) = True"

fun idsFresh :: "App \<Rightarrow> (int \<times> op) list \<Rightarrow> bool" where
  "idsFresh st [] = True"
| "idsFresh st ((now, opn) # es) =
     (freshId (board st) now opn \<and>
      (case perform now opn st of Inl e \<Rightarrow> True | Inr st' \<Rightarrow> idsFresh st' es))"

section \<open>The invariants of the data model\<close>

definition invariant1 :: "BoardData \<Rightarrow> bool" where
  "invariant1 b \<longleftrightarrow>
     (\<forall>k col. columns b k = Some col \<longrightarrow> (\<forall>t \<in> set (taskIds col). tasks b t \<noteq> None))"

definition invariant2 :: "BoardData \<Rightarrow> bool" where
  "invariant2 b \<longleftrightarrow>
     (\<forall>t. tasks b t \<noteq> None \<longrightarrow> (\<exists>!k. \<exists>col. columns b k = Some col \<and> t \<in> set (taskIds col))) \<and>
     (\<forall>k col. columns b k = Some col \<longrightarrow> distinct (taskIds col))"

definition invariant3 :: "BoardData \<Rightarrow> bool" where
  "invariant3 b \<longleftrightarrow> distinct (columnOrder b) \<and> set (columnOrder b) = dom (columns b)"

definition invariants :: "BoardData \<Rightarrow> bool" where
  "invariants b \<longleftrightarrow> invariant1 b \<and> invariant2 b \<and> invariant3 b"

text \<open>
  What the proofs carry along with the invariants: a column is stored under its own id,
  and the empty string is not a task id (it would send an edit down the creation branch).
\<close>

definition keyed :: "BoardData \<Rightarrow> bool" where
  "keyed b \<longleftrightarrow> (\<forall>k col. columns b k = Some col \<longrightarrow> id_Column col = k) \<and> tasks b [] = None"

text \<open>The first two invariants and \<open>keyed\<close>, said of the two maps.\<close>

definition consistent :: "(string \<rightharpoonup> Task) \<Rightarrow> (string \<rightharpoonup> Column) \<Rightarrow> bool" where
  "consistent T C \<longleftrightarrow>
     (\<forall>k col. C k = Some col \<longrightarrow>
        id_Column col = k \<and> distinct (taskIds col) \<and> (\<forall>t \<in> set (taskIds col). T t \<noteq> None)) \<and>
     (\<forall>t. T t \<noteq> None \<longrightarrow> (\<exists>k col. C k = Some col \<and> t \<in> set (taskIds col))) \<and>
     (\<forall>k k' col col'. C k = Some col \<longrightarrow> C k' = Some col' \<longrightarrow> k \<noteq> k' \<longrightarrow>
        set (taskIds col) \<inter> set (taskIds col') = {}) \<and>
     T [] = None"

text \<open>The report that task \<open>tid\<close> was dragged from index \<open>si\<close> of column \<open>src\<close> to index \<open>di\<close> of column \<open>dst\<close>.\<close>

definition report :: "string \<Rightarrow> string \<Rightarrow> int \<Rightarrow> string \<Rightarrow> int \<Rightarrow> DropResult" where
  "report tid src si dst di =
     \<lparr>destination = Some \<lparr>droppableId = dst, index = di\<rparr>,
      source = \<lparr>droppableId = src, index = si\<rparr>, draggableId = tid\<rparr>"

section \<open>Examples\<close>

text \<open>
  Two creations, an edit, a move to another column and a delete, at five clock readings;
  and two creations at one clock reading. The letters are \<open>x\<close>, \<open>y\<close> and \<open>z\<close>.
\<close>

definition exampleRun :: "(int \<times> op) list" where
  "exampleRun =
     [(5, CreateTask ''todo'' [0x78]),
      (6, CreateTask ''todo'' [0x79]),
      (7, EditTask ''task-5'' ''todo'' [0x7A]),
      (8, MoveTask (report ''task-5'' ''todo'' 1 ''done'' 0)),
      (9, DeleteTask ''task-6'' ''todo'')]"

definition sameClockRun :: "(int \<times> op) list" where
  "sameClockRun = [(5, CreateTask ''todo'' [0x78]), (5, CreateTask ''todo'' [0x79])]"

text \<open>A board with the given ids in its first and last column, every task with content \<open>x\<close>.\<close>

definition exampleBoard :: "string list \<Rightarrow> string list \<Rightarrow> BoardData" where
  "exampleBoard todo done =
     \<lparr>tasks = map_of (map (\<lambda>i. (i, \<lparr>id_Task = Some i, content_Task = [0x78]\<rparr>)) (todo @ done)),
      columns =
        [''todo'' \<mapsto> \<lparr>id_Column = ''todo'', title = ''To Do'', color = ''bg-blue-100'',
                       accent = ''bg-blue-500'', taskIds = todo\<rparr>,
         ''inprogress'' \<mapsto> \<lparr>id_Column = ''inprogress'', title = ''In Progress'',
                       color = ''bg-yellow-100'', accent = ''bg-yellow-500'', taskIds = []\<rparr>,
         ''done'' \<mapsto> \<lparr>id_Column = ''done'', title = ''Done'', color = ''bg-green-100'',
                       accent = ''bg-green-500'', taskIds = done\<rparr>],
      columnOrder = [''todo'', ''inprogress'', ''done'']\<rparr>"

definition exampleApp :: "string list \<Rightarrow> string list \<Rightarrow> App" where
  "exampleApp todo done =
     \<lparr>board = exampleBoard todo done, showModal = False, modalTask = None, deleting = None\<rparr>"

text \<open>An edit waiting in the modal for a task id that is no key of \<open>tasks\<close>.\<close>

definition staleEditApp :: App where
  "staleEditApp =
     initialApp\<lparr>showModal := True,
                modalTask := Some \<lparr>id_ModalTask = Some ''missing-id'', content_ModalTask = [0x78],
                                   columnId_ModalTask = ''todo''\<rparr>\<rparr>"

section \<open>Content\<close>

text \<open>
  Every task's content is a non-empty string of at most 300 code units. The text area of
  the modal has \<open>maxLength={300}\<close>, so what a user types into it is that short;
  \<open>typed\<close> is the text an operation sets the modal to.
\<close>

definition contentBounded :: "BoardData \<Rightarrow> bool" where
  "contentBounded b \<longleftrightarrow>
     (\<forall>t task. tasks b t = Some task \<longrightarrow>
        content_Task task \<noteq> [] \<and> length (content_Task task) \<le> 300)"

fun typed :: "op \<Rightarrow> jsstring" where
  "typed (CreateTask cid c) = c"
| "typed (EditTask tid cid c) = c"
| "typed (DeleteTask tid cid) = []"
| "typed (MoveTask r) = []"

definition withinMaxLength :: "(int \<times> op) list \<Rightarrow> bool" where
  "withinMaxLength es \<longleftrightarrow> list_all (\<lambda>e. length (typed (snd e)) \<le> 300) es"

section \<open>The list operations of the specification\<close>

text \<open>
  The specification's two steps of a move, in its own words: remove the element at an
  index, insert an element at an index.
\<close>

definition removeAt :: "nat \<Rightarrow> 'a list \<Rightarrow> 'a list" where
  "removeAt i xs = take i xs @ drop (Suc i) xs"

definition insertAt :: "nat \<Rightarrow> 'a \<Rightarrow> 'a list \<Rightarrow> 'a list" where
  "insertAt i x xs = take i xs @ x # drop i xs"

section \<open>Properties\<close>

subsection \<open>Lists and splice\<close>

lemma trim_Nil: "trim [] = []"
  by (simp add: trim_def)

lemma splice_remove: "0 \<le> i \<Longrightarrow> splice xs i 1 [] = removeAt (nat i) xs"
  by (auto simp: splice_def removeAt_def Let_def min_def max_def nat_add_distrib)

lemma splice_insert: "0 \<le> i \<Longrightarrow> splice xs i 0 [x] = insertAt (nat i) x xs"
  by (auto simp: splice_def insertAt_def Let_def min_def max_def)

lemma splice_insert_any:
  "splice xs i 0 [x] =
     insertAt (nat (if i < 0 then max (int (length xs) + i) 0 else min i (int (length xs)))) x xs"
  by (auto simp: splice_def insertAt_def Let_def min_def max_def)

lemma set_insertAt: "set (insertAt i x xs) = insert x (set xs)"
proof -
  have "set (take i xs) \<union> set (drop i xs) = set xs"
    by (metis append_take_drop_id set_append)
  then show ?thesis by (auto simp: insertAt_def)
qed

lemma distinct_insertAt: "distinct (insertAt i x xs) \<longleftrightarrow> x \<notin> set xs \<and> distinct xs"
proof -
  have s: "set xs = set (take i xs) \<union> set (drop i xs)"
    by (metis append_take_drop_id set_append)
  have d: "distinct xs = (distinct (take i xs) \<and> distinct (drop i xs) \<and> set (take i xs) \<inter> set (drop i xs) = {})"
    by (metis append_take_drop_id distinct_append)
  show ?thesis unfolding insertAt_def s d by auto
qed

lemma set_removeAt:
  assumes "i < length xs" "distinct xs"
  shows "set (removeAt i xs) = set xs - {xs ! i}"
proof -
  have d: "distinct (take i xs @ xs ! i # drop (Suc i) xs)"
    using assms id_take_nth_drop[of i xs] by simp
  have "set xs = set (take i xs @ xs ! i # drop (Suc i) xs)"
    using assms id_take_nth_drop[of i xs] by simp
  then show ?thesis using d by (auto simp: removeAt_def)
qed

lemma distinct_removeAt: 
  assumes "distinct xs" shows "distinct (removeAt i xs)"
proof (cases "i < length xs")
  case True
  have "distinct (take i xs @ xs ! i # drop (Suc i) xs)"
    using assms True id_take_nth_drop[of i xs] by simp
  then show ?thesis by (simp add: removeAt_def)
next
  case False
  then show ?thesis using assms by (simp add: removeAt_def)
qed

lemma digit_inj: "a < 10 \<Longrightarrow> b < 10 \<Longrightarrow> digit a = digit b \<Longrightarrow> a = b"
proof -
  assume a: "a < 10" and b: "b < 10" and e: "digit a = digit b"
  have "distinct ''0123456789''" by simp
  moreover have "length ''0123456789'' = 10" by simp
  ultimately show ?thesis using a b e unfolding digit_def
    by (metis nth_eq_iff_index_eq)
qed

lemma digits_small [simp]: "n < 10 \<Longrightarrow> digits n = [digit n]"
  by (subst digits.simps) simp

lemma digits_large [simp]: "\<not> n < 10 \<Longrightarrow> digits n = digits (n div 10) @ [digit (n mod 10)]"
  by (subst digits.simps) simp

lemma digits_nonempty: "digits n \<noteq> []"
  by (cases "n < 10") simp_all

lemma digits_inj: "digits a = digits b \<Longrightarrow> a = b"
proof (induction a arbitrary: b rule: digits.induct)
  case (1 n)
  show ?case
  proof (cases "n < 10")
    case True
    note n = this
    show ?thesis
    proof (cases "b < 10")
      case True
      with n "1.prems" show ?thesis by (simp add: digit_inj)
    next
      case False
      with n "1.prems" digits_nonempty[of "b div 10"] show ?thesis by simp
    qed
  next
    case False
    note n = this
    show ?thesis
    proof (cases "b < 10")
      case True
      with n "1.prems" digits_nonempty[of "n div 10"] show ?thesis by simp
    next
      case False
      from n False "1.prems" have "digits (n div 10) = digits (b div 10)"
        and "digit (n mod 10) = digit (b mod 10)"
        by simp_all
      then have "n div 10 = b div 10" and "n mod 10 = b mod 10"
        using "1.IH"[OF n] by (simp_all add: digit_inj)
      then show ?thesis by (metis div_mult_mod_eq)
    qed
  qed
qed

lemma digits_chars: "set (digits n) \<subseteq> set ''0123456789''"
proof (induction n rule: digits.induct)
  case (1 n)
  have m: "digit (n mod 10) \<in> set ''0123456789''"
    unfolding digit_def by (rule nth_mem) simp
  show ?case
  proof (cases "n < 10")
    case True
    then have "digit n \<in> set ''0123456789''"
      unfolding digit_def by (intro nth_mem) simp
    with True show ?thesis by simp
  next
    case False
    with 1 m show ?thesis by simp
  qed
qed

subsection \<open>Generated ids\<close>

lemma numberToString_inj: "numberToString a = numberToString b \<Longrightarrow> a = b"
proof -
  assume e: "numberToString a = numberToString b"
  have nd: "\<And>n. hd (digits n) \<noteq> CHR ''-''"
  proof -
    fix n
    have "hd (digits n) \<in> set (digits n)" using digits_nonempty by simp
    then have "hd (digits n) \<in> set ''0123456789''" using digits_chars by blast
    moreover have "CHR ''-'' \<notin> set ''0123456789''" by simp
    ultimately show "hd (digits n) \<noteq> CHR ''-''" by metis
  qed
  show ?thesis
  proof (cases "a < 0")
    case True
    note a = this
    show ?thesis
    proof (cases "b < 0")
      case True
      with a e have "digits (nat (- a)) = digits (nat (- b))" by (simp add: numberToString_def)
      then have "nat (- a) = nat (- b)" by (rule digits_inj)
      with a True show ?thesis by simp
    next
      case False
      with a e have "CHR ''-'' # digits (nat (- a)) = digits (nat b)" by (simp add: numberToString_def)
      then have "hd (digits (nat b)) = CHR ''-''" by (metis list.sel(1))
      with nd show ?thesis by blast
    qed
  next
    case False
    note a = this
    show ?thesis
    proof (cases "b < 0")
      case True
      with a e have "digits (nat a) = CHR ''-'' # digits (nat (- b))" by (simp add: numberToString_def)
      then have "hd (digits (nat a)) = CHR ''-''" by (metis list.sel(1))
      with nd show ?thesis by blast
    next
      case False
      with a e have "digits (nat a) = digits (nat b)" by (simp add: numberToString_def)
      then have "nat a = nat b" by (rule digits_inj)
      with a False show ?thesis by simp
    qed
  qed
qed

lemma newTaskId_inj: "newTaskId a = newTaskId b \<Longrightarrow> a = b"
  by (simp add: newTaskId_def numberToString_inj)

lemma newTaskId_nonempty: "newTaskId now \<noteq> []"
  by (simp add: newTaskId_def)

subsection \<open>What each operation computes\<close>

lemma perform_CreateTask:
  "perform now (CreateTask cid c) st =
     (if trim c = [] then Inr (onChange c (openNewTaskModal cid st))
      else case columns (board st) cid of
             None \<Rightarrow> Inl TypeError
           | Some col \<Rightarrow>
               Inr (st\<lparr>board := (board st)\<lparr>tasks := (tasks (board st))(newTaskId now \<mapsto> \<lparr>id_Task = Some (newTaskId now), content_Task = c\<rparr>),
                                           columns := (columns (board st))(cid \<mapsto> col\<lparr>taskIds := newTaskId now # taskIds col\<rparr>)\<rparr>,
                       showModal := False, modalTask := None\<rparr>))"
  by (simp add: handleModalSave_def onChange_def openNewTaskModal_def truthy_def newUpdater_def closeModal_def split: option.splits)

lemma perform_EditTask:
  "perform now (EditTask tid cid c) st =
     (case tasks (board st) tid of
        None \<Rightarrow> Inl TypeError
      | Some t \<Rightarrow>
          if trim c = [] then
            Inr (st\<lparr>modalTask := Some \<lparr>id_ModalTask = Some tid, content_ModalTask = c, columnId_ModalTask = cid\<rparr>,
                    showModal := True\<rparr>)
          else if tid \<noteq> [] then
            Inr (st\<lparr>board := (board st)\<lparr>tasks := (tasks (board st))(tid \<mapsto> t\<lparr>content_Task := c\<rparr>)\<rparr>,
                    showModal := False, modalTask := None\<rparr>)
          else perform now (CreateTask cid c) st)"
  by (simp add: handleModalSave_def onChange_def openNewTaskModal_def openEditTaskModal_def
      truthy_def editUpdater_def newUpdater_def closeModal_def split: option.splits)

lemma perform_DeleteTask:
  "perform now (DeleteTask tid cid) st =
     (case columns (board st) cid of
        None \<Rightarrow> Inl TypeError
      | Some col \<Rightarrow>
          Inr (st\<lparr>board := (board st)\<lparr>tasks := (tasks (board st))(tid := None),
                                      columns := (columns (board st))(cid \<mapsto> col\<lparr>taskIds := filter (\<lambda>i. i \<noteq> tid) (taskIds col)\<rparr>)\<rparr>,
                  deleting := None\<rparr>))"
  by (simp add: confirmDelete_def handleDeleteTask_def deleteUpdater_def split: option.splits)

subsection \<open>The invariants, operation by operation\<close>

lemma consistent_iff:
  "invariant1 b \<and> invariant2 b \<and> keyed b \<longleftrightarrow> consistent (tasks b) (columns b)"
proof
  assume a: "invariant1 b \<and> invariant2 b \<and> keyed b"
  show "consistent (tasks b) (columns b)"
    unfolding consistent_def
  proof (intro conjI allI impI)
    fix k col assume "columns b k = Some col"
    with a show "id_Column col = k" "distinct (taskIds col)" "\<forall>t\<in>set (taskIds col). tasks b t \<noteq> None"
      unfolding invariant1_def invariant2_def keyed_def by blast+
  next
    fix t assume "tasks b t \<noteq> None"
    with a show "\<exists>k col. columns b k = Some col \<and> t \<in> set (taskIds col)"
      unfolding invariant2_def by blast
  next
    fix k k' col col'
    assume c: "columns b k = Some col" "columns b k' = Some col'" "k \<noteq> k'"
    show "set (taskIds col) \<inter> set (taskIds col') = {}"
    proof (rule ccontr)
      assume "set (taskIds col) \<inter> set (taskIds col') \<noteq> {}"
      then obtain t where t: "t \<in> set (taskIds col)" "t \<in> set (taskIds col')" by blast
      with a c have "tasks b t \<noteq> None" unfolding invariant1_def by blast
      with a have "\<exists>!k. \<exists>col. columns b k = Some col \<and> t \<in> set (taskIds col)"
        unfolding invariant2_def by blast
      with c t show False by blast
    qed
  next
    from a show "tasks b [] = None" unfolding keyed_def by blast
  qed
next
  assume c: "consistent (tasks b) (columns b)"
  have 1: "invariant1 b" using c unfolding invariant1_def consistent_def by blast
  have k: "keyed b" using c unfolding keyed_def consistent_def by blast
  have 2: "invariant2 b"
    unfolding invariant2_def
  proof (intro conjI allI impI)
    fix t assume "tasks b t \<noteq> None"
    with c obtain k col where kc: "columns b k = Some col" "t \<in> set (taskIds col)"
      unfolding consistent_def by blast
    have u: "\<And>k' col'. columns b k' = Some col' \<Longrightarrow> t \<in> set (taskIds col') \<Longrightarrow> k' = k"
    proof (rule ccontr)
      fix k' col' assume h: "columns b k' = Some col'" "t \<in> set (taskIds col')" "k' \<noteq> k"
      with c kc have "set (taskIds col) \<inter> set (taskIds col') = {}"
        unfolding consistent_def by blast
      with kc h show False by blast
    qed
    show "\<exists>!k. \<exists>col. columns b k = Some col \<and> t \<in> set (taskIds col)"
      using kc u by blast
  next
    fix k col assume "columns b k = Some col"
    with c show "distinct (taskIds col)" unfolding consistent_def by blast
  qed
  from 1 2 k show "invariant1 b \<and> invariant2 b \<and> keyed b" by blast
qed

lemma consistent_create:
  assumes c: "consistent T C" and col: "C cid = Some col" and fresh: "T nid = None" and ne: "nid \<noteq> []"
  shows "consistent (T(nid \<mapsto> t)) (C(cid \<mapsto> col\<lparr>taskIds := nid # taskIds col\<rparr>))"
proof -
  have notin: "\<And>k c. C k = Some c \<Longrightarrow> nid \<notin> set (taskIds c)"
    using c fresh unfolding consistent_def by blast
  show ?thesis
    unfolding consistent_def
  proof (intro conjI allI impI)
    fix k c' assume h: "(C(cid \<mapsto> col\<lparr>taskIds := nid # taskIds col\<rparr>)) k = Some c'"
    show "id_Column c' = k"
      using h c col unfolding consistent_def by (auto split: if_splits)
    show "distinct (taskIds c')"
      using h c col notin[OF col] unfolding consistent_def by (auto split: if_splits)
    show "\<forall>t'\<in>set (taskIds c'). (T(nid \<mapsto> t)) t' \<noteq> None"
      using h c col unfolding consistent_def by (auto split: if_splits)
  next
    fix t' assume h: "(T(nid \<mapsto> t)) t' \<noteq> None"
    show "\<exists>k c'. (C(cid \<mapsto> col\<lparr>taskIds := nid # taskIds col\<rparr>)) k = Some c' \<and> t' \<in> set (taskIds c')"
    proof (cases "t' = nid")
      case True
      then show ?thesis by (intro exI[of _ cid] exI[of _ "col\<lparr>taskIds := nid # taskIds col\<rparr>"]) simp
    next
      case False
      with h have "T t' \<noteq> None" by simp
      with c obtain k c' where kc: "C k = Some c'" "t' \<in> set (taskIds c')"
        unfolding consistent_def by blast
      show ?thesis
      proof (cases "k = cid")
        case True
        with kc col show ?thesis
          by (intro exI[of _ cid] exI[of _ "col\<lparr>taskIds := nid # taskIds col\<rparr>"]) simp
      next
        case False
        with kc show ?thesis by (intro exI[of _ k] exI[of _ c']) simp
      qed
    qed
  next
    fix k k' c1 c2
    assume h: "(C(cid \<mapsto> col\<lparr>taskIds := nid # taskIds col\<rparr>)) k = Some c1"
      "(C(cid \<mapsto> col\<lparr>taskIds := nid # taskIds col\<rparr>)) k' = Some c2" "k \<noteq> k'"
    have d: "\<And>a b ca cb. C a = Some ca \<Longrightarrow> C b = Some cb \<Longrightarrow> a \<noteq> b \<Longrightarrow> set (taskIds ca) \<inter> set (taskIds cb) = {}"
      using c unfolding consistent_def by blast
    show "set (taskIds c1) \<inter> set (taskIds c2) = {}"
    proof (cases "k = cid")
      case True
      with h have k': "C k' = Some c2" and c1: "c1 = col\<lparr>taskIds := nid # taskIds col\<rparr>" by auto
      from d[OF col k'] True h(3) notin[OF k'] c1 show ?thesis by auto
    next
      case False
      note kf = this
      with h have k1: "C k = Some c1" by simp
      show ?thesis
      proof (cases "k' = cid")
        case True
        with h have c2: "c2 = col\<lparr>taskIds := nid # taskIds col\<rparr>" by auto
        from d[OF k1 col] kf notin[OF k1] c2 show ?thesis by auto
      next
        case False
        with h have "C k' = Some c2" by simp
        from d[OF k1 this h(3)] show ?thesis .
      qed
    qed
  next
    from c ne show "(T(nid \<mapsto> t)) [] = None" unfolding consistent_def by simp
  qed
qed

lemma consistent_edit:
  assumes c: "consistent T C" and t: "T tid \<noteq> None"
  shows "consistent (T(tid \<mapsto> t')) C"
proof -
  have e: "\<And>x. ((T(tid \<mapsto> t')) x \<noteq> None) = (T x \<noteq> None)" using t by simp
  have n: "tid \<noteq> []" using c t unfolding consistent_def by blast
  show ?thesis using c n unfolding consistent_def e by simp
qed

lemma consistent_same:
  assumes c: "consistent T C" and col: "C k = Some col"
    and s: "set xs = set (taskIds col)" and d: "distinct xs"
  shows "consistent T (C(k \<mapsto> col\<lparr>taskIds := xs\<rparr>))"
  unfolding consistent_def
proof (intro conjI allI impI)
  fix a c' assume h: "(C(k \<mapsto> col\<lparr>taskIds := xs\<rparr>)) a = Some c'"
  show "id_Column c' = a"
    using h c col unfolding consistent_def by (auto split: if_splits)
  show "distinct (taskIds c')"
    using h c col d unfolding consistent_def by (auto split: if_splits)
  show "\<forall>t'\<in>set (taskIds c'). T t' \<noteq> None"
    using h c col s unfolding consistent_def by (auto split: if_splits)
next
  fix t assume "T t \<noteq> None"
  with c obtain a c' where kc: "C a = Some c'" "t \<in> set (taskIds c')"
    unfolding consistent_def by blast
  show "\<exists>a c'. (C(k \<mapsto> col\<lparr>taskIds := xs\<rparr>)) a = Some c' \<and> t \<in> set (taskIds c')"
  proof (cases "a = k")
    case True
    with kc col s show ?thesis
      by (intro exI[of _ k] exI[of _ "col\<lparr>taskIds := xs\<rparr>"]) simp
  next
    case False
    with kc show ?thesis by (intro exI[of _ a] exI[of _ c']) simp
  qed
next
  fix a b c1 c2
  assume h: "(C(k \<mapsto> col\<lparr>taskIds := xs\<rparr>)) a = Some c1"
    "(C(k \<mapsto> col\<lparr>taskIds := xs\<rparr>)) b = Some c2" "a \<noteq> b"
  have dj: "\<And>a b ca cb. C a = Some ca \<Longrightarrow> C b = Some cb \<Longrightarrow> a \<noteq> b \<Longrightarrow> set (taskIds ca) \<inter> set (taskIds cb) = {}"
    using c unfolding consistent_def by blast
  show "set (taskIds c1) \<inter> set (taskIds c2) = {}"
  proof (cases "a = k")
    case True
    with h have b: "C b = Some c2" and c1: "c1 = col\<lparr>taskIds := xs\<rparr>" by auto
    from dj[OF col b] True h(3) c1 s show ?thesis by auto
  next
    case False
    note af = this
    with h have a1: "C a = Some c1" by simp
    show ?thesis
    proof (cases "b = k")
      case True
      with h have c2: "c2 = col\<lparr>taskIds := xs\<rparr>" by auto
      from dj[OF a1 col] af c2 s show ?thesis by auto
    next
      case False
      with h have "C b = Some c2" by simp
      from dj[OF a1 this h(3)] show ?thesis .
    qed
  qed
next
  from c show "T [] = None" unfolding consistent_def by simp
qed

lemma consistent_delete:
  assumes c: "consistent T C" and col: "C cid = Some col" and m: "tid \<in> set (taskIds col)"
  shows "consistent (T(tid := None)) (C(cid \<mapsto> col\<lparr>taskIds := filter (\<lambda>i. i \<noteq> tid) (taskIds col)\<rparr>))"
    (is "consistent ?T ?C")
proof -
  have dj: "\<And>a b ca cb. C a = Some ca \<Longrightarrow> C b = Some cb \<Longrightarrow> a \<noteq> b \<Longrightarrow> set (taskIds ca) \<inter> set (taskIds cb) = {}"
    using c unfolding consistent_def by blast
  have other: "\<And>a ca. C a = Some ca \<Longrightarrow> a \<noteq> cid \<Longrightarrow> tid \<notin> set (taskIds ca)"
    using dj[OF col] m by blast
  show ?thesis
    unfolding consistent_def
  proof (intro conjI allI impI)
    fix a c' assume h: "?C a = Some c'"
    show "id_Column c' = a"
      using h c col unfolding consistent_def by (auto split: if_splits)
    show "distinct (taskIds c')"
      using h c col unfolding consistent_def by (auto split: if_splits)
    show "\<forall>t'\<in>set (taskIds c'). ?T t' \<noteq> None"
    proof (cases "a = cid")
      case True
      with h col c show ?thesis unfolding consistent_def by auto
    next
      case False
      with h have "C a = Some c'" by simp
      with other[OF this False] c show ?thesis unfolding consistent_def by auto
    qed
  next
    fix t assume t: "?T t \<noteq> None"
    then have tn: "t \<noteq> tid" and "T t \<noteq> None" by (auto split: if_splits)
    with c obtain a c' where kc: "C a = Some c'" "t \<in> set (taskIds c')"
      unfolding consistent_def by blast
    show "\<exists>a c'. ?C a = Some c' \<and> t \<in> set (taskIds c')"
    proof (cases "a = cid")
      case True
      with kc col tn show ?thesis
        by (intro exI[of _ cid] exI[of _ "col\<lparr>taskIds := filter (\<lambda>i. i \<noteq> tid) (taskIds col)\<rparr>"]) simp
    next
      case False
      with kc show ?thesis by (intro exI[of _ a] exI[of _ c']) simp
    qed
  next
    fix a b c1 c2
    assume h: "?C a = Some c1" "?C b = Some c2" "a \<noteq> b"
    show "set (taskIds c1) \<inter> set (taskIds c2) = {}"
    proof (cases "a = cid")
      case True
      with h have b: "C b = Some c2" and c1: "c1 = col\<lparr>taskIds := filter (\<lambda>i. i \<noteq> tid) (taskIds col)\<rparr>" by auto
      from dj[OF col b] True h(3) c1 show ?thesis by auto
    next
      case False
      note af = this
      with h have a1: "C a = Some c1" by simp
      show ?thesis
      proof (cases "b = cid")
        case True
        with h have c2: "c2 = col\<lparr>taskIds := filter (\<lambda>i. i \<noteq> tid) (taskIds col)\<rparr>" by auto
        from dj[OF a1 col] af c2 show ?thesis by auto
      next
        case False
        with h have "C b = Some c2" by simp
        from dj[OF a1 this h(3)] show ?thesis .
      qed
    qed
  next
    from c show "?T [] = None" unfolding consistent_def by simp
  qed
qed

lemma consistent_cross:
  assumes c: "consistent T C" and s: "C k = Some start" and f: "C k' = Some finish" and ne: "k \<noteq> k'"
    and i: "i < length (taskIds start)" and did: "taskIds start ! i = did"
  shows "consistent T (C(k \<mapsto> start\<lparr>taskIds := removeAt i (taskIds start)\<rparr>,
                         k' \<mapsto> finish\<lparr>taskIds := insertAt j did (taskIds finish)\<rparr>))"
    (is "consistent T ?C")
proof -
  let ?s = "start\<lparr>taskIds := removeAt i (taskIds start)\<rparr>"
  let ?f = "finish\<lparr>taskIds := insertAt j did (taskIds finish)\<rparr>"
  have dj: "\<And>a b ca cb. C a = Some ca \<Longrightarrow> C b = Some cb \<Longrightarrow> a \<noteq> b \<Longrightarrow> set (taskIds ca) \<inter> set (taskIds cb) = {}"
    using c unfolding consistent_def by blast
  have ds: "distinct (taskIds start)" and df: "distinct (taskIds finish)"
    using c s f unfolding consistent_def by blast+
  have mem: "did \<in> set (taskIds start)" using i did nth_mem by blast
  have ss: "set (taskIds ?s) = set (taskIds start) - {did}"
    using set_removeAt[OF i ds] did by simp
  have sf: "set (taskIds ?f) = insert did (set (taskIds finish))"
    by (simp add: set_insertAt)
  have nf: "did \<notin> set (taskIds finish)" using dj[OF s f ne] mem by blast
  have other: "\<And>a ca. C a = Some ca \<Longrightarrow> a \<noteq> k \<Longrightarrow> did \<notin> set (taskIds ca)"
    using dj[OF s] mem by blast
  have Ck: "?C k = Some ?s" using ne by simp
  have Ck': "?C k' = Some ?f" by simp
  have Co: "\<And>a. a \<noteq> k \<Longrightarrow> a \<noteq> k' \<Longrightarrow> ?C a = C a" by simp
  have cases: "\<And>a ca. ?C a = Some ca \<Longrightarrow>
      (a = k \<and> ca = ?s) \<or> (a = k' \<and> ca = ?f) \<or> (a \<noteq> k \<and> a \<noteq> k' \<and> C a = Some ca)"
    by (auto split: if_splits)
  show ?thesis
    unfolding consistent_def
  proof (intro conjI allI impI)
    fix a c' assume h: "?C a = Some c'"
    show "id_Column c' = a"
      using cases[OF h] c s f unfolding consistent_def by auto
    show "distinct (taskIds c')"
      using cases[OF h] c distinct_removeAt[OF ds, of i] df nf unfolding consistent_def
      by (auto simp: distinct_insertAt)
    show "\<forall>t'\<in>set (taskIds c'). T t' \<noteq> None"
    proof
      fix t' assume t': "t' \<in> set (taskIds c')"
      have "\<exists>b cb. C b = Some cb \<and> t' \<in> set (taskIds cb)"
        using cases[OF h] t' ss sf s f mem by (metis Diff_iff insert_iff)
      with c show "T t' \<noteq> None" unfolding consistent_def by blast
    qed
  next
    fix t assume "T t \<noteq> None"
    with c obtain a c' where kc: "C a = Some c'" "t \<in> set (taskIds c')"
      unfolding consistent_def by blast
    show "\<exists>a c'. ?C a = Some c' \<and> t \<in> set (taskIds c')"
    proof (cases "t = did")
      case True
      with sf Ck' show ?thesis by blast
    next
      case False
      show ?thesis
      proof (cases "a = k")
        case True
        with kc s False ss Ck show ?thesis by (metis Diff_iff option.inject singletonD)
      next
        case ak: False
        show ?thesis
        proof (cases "a = k'")
          case True
          with kc f sf Ck' show ?thesis by (metis insert_iff option.inject)
        next
          case False
          with ak kc Co show ?thesis by metis
        qed
      qed
    qed
  next
    fix a b c1 c2
    assume h: "?C a = Some c1" "?C b = Some c2" "a \<noteq> b"
    have sub: "\<And>x cx. ?C x = Some cx \<Longrightarrow> x \<noteq> k' \<Longrightarrow> \<exists>cx'. C x = Some cx' \<and> set (taskIds cx) \<subseteq> set (taskIds cx') - {did}"
    proof -
      fix x cx assume x: "?C x = Some cx" "x \<noteq> k'"
      from cases[OF x(1)] x(2) consider "x = k" "cx = ?s" | "x \<noteq> k" "C x = Some cx" by blast
      then show "\<exists>cx'. C x = Some cx' \<and> set (taskIds cx) \<subseteq> set (taskIds cx') - {did}"
      proof cases
        case 1
        with s ss show ?thesis by blast
      next
        case 2
        with other[OF 2(2) 2(1)] show ?thesis by blast
      qed
    qed
    show "set (taskIds c1) \<inter> set (taskIds c2) = {}"
    proof (cases "a = k'")
      case True
      with h Ck' have c1: "c1 = ?f" by simp
      from h True have bk: "b \<noteq> k'" by simp
      from sub[OF h(2) bk] obtain cb where cb: "C b = Some cb" "set (taskIds c2) \<subseteq> set (taskIds cb) - {did}" by blast
      from dj[OF f cb(1)] bk have "set (taskIds finish) \<inter> set (taskIds cb) = {}" by blast
      with cb(2) c1 sf show ?thesis by auto
    next
      case ak: False
      from sub[OF h(1) ak] obtain ca where ca: "C a = Some ca" "set (taskIds c1) \<subseteq> set (taskIds ca) - {did}" by blast
      show ?thesis
      proof (cases "b = k'")
        case True
        with h Ck' have c2: "c2 = ?f" by simp
        from dj[OF ca(1) f] ak True have "set (taskIds ca) \<inter> set (taskIds finish) = {}" by blast
        with ca(2) c2 sf show ?thesis by auto
      next
        case False
        from sub[OF h(2) False] obtain cb where cb: "C b = Some cb" "set (taskIds c2) \<subseteq> set (taskIds cb) - {did}" by blast
        from dj[OF ca(1) cb(1) h(3)] ca(2) cb(2) show ?thesis by blast
      qed
    qed
  next
    from c show "T [] = None" unfolding consistent_def by simp
  qed
qed

lemma wellFormed_iff:
  "invariants b \<and> keyed b \<longleftrightarrow> consistent (tasks b) (columns b) \<and> invariant3 b"
  using consistent_iff[of b] unfolding invariants_def by blast

lemma dragUpdater_tasks:
  "dragUpdater src dst did b = Inr b' \<Longrightarrow> tasks b' = tasks b \<and> columnOrder b' = columnOrder b"
  by (auto simp: dragUpdater_def Let_def split: option.splits if_splits)

lemma dragUpdater_consistent:
  assumes c: "consistent (tasks b) (columns b)"
    and s: "columns b (droppableId src) = Some start"
    and i0: "0 \<le> index src" and i: "nat (index src) < length (taskIds start)"
    and did: "taskIds start ! nat (index src) = did"
    and f: "columns b (droppableId dst) = Some finish"
  shows "\<exists>b'. dragUpdater src dst did b = Inr b' \<and> consistent (tasks b') (columns b') \<and>
           columnOrder b' = columnOrder b \<and> dom (columns b') = dom (columns b)"
proof (cases "droppableId dst = droppableId src")
  case True
  let ?xs = "splice (splice (taskIds start) (index src) 1 []) (index dst) 0 [did]"
  have ks: "id_Column start = droppableId src" using c s unfolding consistent_def by blast
  have ds: "distinct (taskIds start)" using c s unfolding consistent_def by blast
  obtain j where xs: "?xs = insertAt j did (removeAt (nat (index src)) (taskIds start))"
    using splice_insert_any[of "splice (taskIds start) (index src) 1 []" "index dst" did]
      splice_remove[OF i0, of "taskIds start"] by metis
  have mem: "did \<in> set (taskIds start)" using i did nth_mem by blast
  have sr: "set (removeAt (nat (index src)) (taskIds start)) = set (taskIds start) - {did}"
    using set_removeAt[OF i ds] did by simp
  have set_xs: "set ?xs = set (taskIds start)"
    unfolding xs set_insertAt sr using mem by blast
  have dist_xs: "distinct ?xs"
    unfolding xs distinct_insertAt using sr distinct_removeAt[OF ds] by simp
  have e: "dragUpdater src dst did b =
      Inr (b\<lparr>columns := (columns b)(droppableId src \<mapsto> start\<lparr>taskIds := ?xs\<rparr>)\<rparr>)"
    using True s ks by (simp add: dragUpdater_def Let_def)
  have "consistent (tasks b) ((columns b)(droppableId src \<mapsto> start\<lparr>taskIds := ?xs\<rparr>))"
    by (rule consistent_same[OF c s set_xs dist_xs])
  moreover have "dom ((columns b)(droppableId src \<mapsto> start\<lparr>taskIds := ?xs\<rparr>)) = dom (columns b)"
    using s by auto
  ultimately show ?thesis unfolding e by simp
next
  case False
  have ks: "id_Column start = droppableId src" and kf: "id_Column finish = droppableId dst"
    using c s f unfolding consistent_def by blast+
  obtain j where j: "splice (taskIds finish) (index dst) 0 [did] = insertAt j did (taskIds finish)"
    using splice_insert_any[of "taskIds finish" "index dst" did] by metis
  let ?C = "(columns b)(droppableId src \<mapsto> start\<lparr>taskIds := removeAt (nat (index src)) (taskIds start)\<rparr>,
                         droppableId dst \<mapsto> finish\<lparr>taskIds := insertAt j did (taskIds finish)\<rparr>)"
  have e: "dragUpdater src dst did b = Inr (b\<lparr>columns := ?C\<rparr>)"
    using False s f ks kf j splice_remove[OF i0, of "taskIds start"]
    by (simp add: dragUpdater_def Let_def)
  have ne: "droppableId src \<noteq> droppableId dst" using False by simp
  have "consistent (tasks b) ?C"
    by (rule consistent_cross[OF c s f ne i did])
  moreover have "dom ?C = dom (columns b)"
    using s f by auto
  ultimately show ?thesis unfolding e by simp
qed

lemma invariant3_cong:
  "invariant3 b \<Longrightarrow> columnOrder b' = columnOrder b \<Longrightarrow> dom (columns b') = dom (columns b) \<Longrightarrow> invariant3 b'"
  by (simp add: invariant3_def)

lemma perform_preserves:
  assumes wf: "invariants (board st) \<and> keyed (board st)"
    and pre: "precondition (board st) opn"
    and fresh: "freshId (board st) now opn"
  shows "\<exists>st'. perform now opn st = Inr st' \<and> invariants (board st') \<and> keyed (board st')"
proof -
  from wf have c: "consistent (tasks (board st)) (columns (board st))" and i3: "invariant3 (board st)"
    using wellFormed_iff by blast+
  show ?thesis
  proof (cases opn)
    case (CreateTask cid content)
    from pre CreateTask obtain col where col: "columns (board st) cid = Some col" and nb: "trim content \<noteq> []"
      by auto
    from fresh CreateTask have fr: "tasks (board st) (newTaskId now) = None" by simp
    let ?b = "(board st)\<lparr>tasks := (tasks (board st))(newTaskId now \<mapsto> \<lparr>id_Task = Some (newTaskId now), content_Task = content\<rparr>),
                columns := (columns (board st))(cid \<mapsto> col\<lparr>taskIds := newTaskId now # taskIds col\<rparr>)\<rparr>"
    have e: "perform now opn st = Inr (st\<lparr>board := ?b, showModal := False, modalTask := None\<rparr>)"
      unfolding CreateTask perform_CreateTask using col nb by simp
    have "consistent (tasks ?b) (columns ?b)"
      using consistent_create[OF c col fr newTaskId_nonempty] by simp
    moreover have "invariant3 ?b"
      using i3 col by (intro invariant3_cong[OF i3]) auto
    ultimately have "invariants ?b \<and> keyed ?b" using wellFormed_iff by blast
    then show ?thesis unfolding e by simp
  next
    case (EditTask tid cid content)
    from pre EditTask obtain t where t: "tasks (board st) tid = Some t" and nb: "trim content \<noteq> []"
      by auto
    have ne: "tid \<noteq> []" using c t unfolding consistent_def by auto
    let ?b = "(board st)\<lparr>tasks := (tasks (board st))(tid \<mapsto> t\<lparr>content_Task := content\<rparr>)\<rparr>"
    have e: "perform now opn st = Inr (st\<lparr>board := ?b, showModal := False, modalTask := None\<rparr>)"
      unfolding EditTask perform_EditTask using t nb ne by simp
    have "consistent (tasks ?b) (columns ?b)"
      using consistent_edit[OF c, of tid] t by simp
    moreover have "invariant3 ?b"
      by (intro invariant3_cong[OF i3]) auto
    ultimately have "invariants ?b \<and> keyed ?b" using wellFormed_iff by blast
    then show ?thesis unfolding e by simp
  next
    case (DeleteTask tid cid)
    from pre DeleteTask obtain col where col: "columns (board st) cid = Some col" and m: "tid \<in> set (taskIds col)"
      by (auto split: option.splits)
    let ?b = "(board st)\<lparr>tasks := (tasks (board st))(tid := None),
                columns := (columns (board st))(cid \<mapsto> col\<lparr>taskIds := filter (\<lambda>i. i \<noteq> tid) (taskIds col)\<rparr>)\<rparr>"
    have e: "perform now opn st = Inr (st\<lparr>board := ?b, deleting := None\<rparr>)"
      unfolding DeleteTask perform_DeleteTask using col by simp
    have "consistent (tasks ?b) (columns ?b)"
      using consistent_delete[OF c col m] by simp
    moreover have "invariant3 ?b"
      using col by (intro invariant3_cong[OF i3]) auto
    ultimately have "invariants ?b \<and> keyed ?b" using wellFormed_iff by blast
    then show ?thesis unfolding e by simp
  next
    case (MoveTask r)
    from pre MoveTask obtain start where s: "columns (board st) (droppableId (source r)) = Some start"
      and i0: "0 \<le> index (source r)" and i: "nat (index (source r)) < length (taskIds start)"
      and did: "taskIds start ! nat (index (source r)) = draggableId r"
      and d: "case destination r of None \<Rightarrow> True | Some d \<Rightarrow> columns (board st) (droppableId d) \<noteq> None"
      by (auto split: option.splits)
    show ?thesis
    proof (cases "destination r")
      case None
      then show ?thesis using wf MoveTask by (simp add: onDragEnd_def)
    next
      case (Some dst)
      with d obtain finish where f: "columns (board st) (droppableId dst) = Some finish" by auto
      show ?thesis
      proof (cases "droppableId dst = droppableId (source r) \<and> index dst = index (source r)")
        case True
        then show ?thesis using wf MoveTask Some by (simp add: onDragEnd_def)
      next
        case False
        from dragUpdater_consistent[OF c s i0 i did f] obtain b' where
          b': "dragUpdater (source r) dst (draggableId r) (board st) = Inr b'"
          "consistent (tasks b') (columns b')" "columnOrder b' = columnOrder (board st)"
          "dom (columns b') = dom (columns (board st))" by blast
        have e: "perform now opn st = Inr (st\<lparr>board := b'\<rparr>)"
          using MoveTask Some False b'(1) by (auto simp: onDragEnd_def)
        have "invariant3 b'" by (rule invariant3_cong[OF i3 b'(3) b'(4)])
        with b'(2) have "invariants b' \<and> keyed b'" using wellFormed_iff by blast
        then show ?thesis unfolding e by simp
      qed
    qed
  qed
qed

lemma run_preserves:
  "invariants (board st) \<and> keyed (board st) \<Longrightarrow> preconditionsHold st es \<Longrightarrow> idsFresh st es \<Longrightarrow>
     \<exists>st'. run es st = Inr st' \<and> invariants (board st') \<and> keyed (board st')"
proof (induction es arbitrary: st)
  case Nil
  then show ?case by simp
next
  case (Cons e es)
  obtain now opn where e: "e = (now, opn)" by (cases e)
  from Cons.prems e have pre: "precondition (board st) opn" and fr: "freshId (board st) now opn" by simp_all
  from perform_preserves[OF Cons.prems(1) pre fr] obtain st1 where
    st1: "perform now opn st = Inr st1" "invariants (board st1) \<and> keyed (board st1)" by blast
  from Cons.prems e st1 have "preconditionsHold st1 es" "idsFresh st1 es" by simp_all
  from Cons.IH[OF st1(2) this] show ?case using e st1(1) by simp
qed

lemma preconditionsHold_take: "preconditionsHold st es \<Longrightarrow> preconditionsHold st (take n es)"
proof (induction es arbitrary: st n)
  case Nil
  then show ?case by simp
next
  case (Cons e es)
  obtain now opn where e: "e = (now, opn)" by (cases e)
  show ?case
  proof (cases n)
    case 0
    then show ?thesis by simp
  next
    case (Suc m)
    with Cons e show ?thesis by (auto split: sum.splits)
  qed
qed

lemma idsFresh_take: "idsFresh st es \<Longrightarrow> idsFresh st (take n es)"
proof (induction es arbitrary: st n)
  case Nil
  then show ?case by simp
next
  case (Cons e es)
  obtain now opn where e: "e = (now, opn)" by (cases e)
  show ?case
  proof (cases n)
    case 0
    then show ?thesis by simp
  next
    case (Suc m)
    with Cons e show ?thesis by (auto split: sum.splits)
  qed
qed

lemma initial_columns:
  "columns (getInitialData None) =
     [''todo'' \<mapsto> \<lparr>id_Column = ''todo'', title = ''To Do'', color = ''bg-blue-100'', accent = ''bg-blue-500'', taskIds = []\<rparr>,
      ''inprogress'' \<mapsto> \<lparr>id_Column = ''inprogress'', title = ''In Progress'', color = ''bg-yellow-100'', accent = ''bg-yellow-500'', taskIds = []\<rparr>,
      ''done'' \<mapsto> \<lparr>id_Column = ''done'', title = ''Done'', color = ''bg-green-100'', accent = ''bg-green-500'', taskIds = []\<rparr>]"
  by (simp add: getInitialData_def DEFAULT_COLUMNS_def)

lemma initial_tasks: "tasks (getInitialData None) = Map.empty"
  by (simp add: getInitialData_def)

lemma initial_columnOrder: "columnOrder (getInitialData None) = [''todo'', ''inprogress'', ''done'']"
  by (simp add: getInitialData_def DEFAULT_COLUMNS_def)

lemma initial_wellFormed: "invariants (getInitialData None) \<and> keyed (getInitialData None)"
proof -
  have "consistent (tasks (getInitialData None)) (columns (getInitialData None))"
    unfolding initial_tasks initial_columns consistent_def
    by (auto split: if_splits)
  moreover have "invariant3 (getInitialData None)"
    unfolding invariant3_def initial_columns initial_columnOrder by auto
  ultimately show ?thesis using wellFormed_iff by blast
qed

subsection \<open>Evaluation on concrete boards\<close>

lemma trim_eq_Nil: "trim s = [] \<longleftrightarrow> (\<forall>u \<in> set s. isWhiteSpace u)"
proof -
  have "trim s = [] \<longleftrightarrow> (\<forall>u \<in> set (dropWhile isWhiteSpace s). isWhiteSpace u)"
    by (simp add: trim_def)
  also have "\<dots> \<longleftrightarrow> dropWhile isWhiteSpace s = []"
  proof
    assume a: "\<forall>u \<in> set (dropWhile isWhiteSpace s). isWhiteSpace u"
    show "dropWhile isWhiteSpace s = []"
    proof (rule ccontr)
      assume n: "dropWhile isWhiteSpace s \<noteq> []"
      then have "hd (dropWhile isWhiteSpace s) \<in> set (dropWhile isWhiteSpace s)"
        by (rule hd_in_set)
      with a have "isWhiteSpace (hd (dropWhile isWhiteSpace s))" by blast
      with hd_dropWhile[OF n] show False by blast
    qed
  next
    assume "dropWhile isWhiteSpace s = []"
    then show "\<forall>u \<in> set (dropWhile isWhiteSpace s). isWhiteSpace u"
      by (simp del: dropWhile_eq_Nil_conv)
  qed
  also have "\<dots> \<longleftrightarrow> (\<forall>u \<in> set s. isWhiteSpace u)"
    by simp
  finally show ?thesis .
qed

lemma perform_MoveTask: "perform now (MoveTask r) st = onDragEnd r st"
  by simp

lemmas eval_simps =
  perform_CreateTask perform_EditTask perform_DeleteTask perform_MoveTask onDragEnd_def dragUpdater_def
  splice_def initialApp_def initial_columns initial_tasks initial_columnOrder
  trim_eq_Nil isWhiteSpace_def newTaskId_def numberToString_def digit_def Let_def report_def

lemma not_invariant2I: "columns b k = Some col \<Longrightarrow> \<not> distinct (taskIds col) \<Longrightarrow> \<not> invariant2 b"
  unfolding invariant2_def by blast

lemma insertAt_removeAt_same: "i < length xs \<Longrightarrow> insertAt i (xs ! i) (removeAt i xs) = xs"
proof -
  assume i: "i < length xs"
  have t: "take i (take i xs @ drop (Suc i) xs) = take i xs" using i by simp
  have d: "drop i (take i xs @ drop (Suc i) xs) = drop (Suc i) xs" using i by simp
  show ?thesis unfolding insertAt_def removeAt_def t d using id_take_nth_drop[OF i] by simp
qed

lemma perform_move_same:
  assumes s: "columns (board st) k = Some col"
  shows "perform now (MoveTask (report tid k si k di)) st =
     (if di = si then Inr st
      else Inr (st\<lparr>board := (board st)\<lparr>columns := (columns (board st))(id_Column col \<mapsto>
              col\<lparr>taskIds := splice (splice (taskIds col) si 1 []) di 0 [tid]\<rparr>)\<rparr>\<rparr>))"
  using s by (simp add: report_def onDragEnd_def dragUpdater_def Let_def)

lemma perform_move_cross:
  assumes s: "columns (board st) k = Some start" and f: "columns (board st) k' = Some finish"
    and ne: "k \<noteq> k'"
  shows "perform now (MoveTask (report tid k si k' di)) st =
     Inr (st\<lparr>board := (board st)\<lparr>columns := (columns (board st))
            (id_Column start \<mapsto> start\<lparr>taskIds := splice (taskIds start) si 1 []\<rparr>,
             id_Column finish \<mapsto> finish\<lparr>taskIds := splice (taskIds finish) di 0 [tid]\<rparr>)\<rparr>\<rparr>)"
  using s f ne by (auto simp: report_def onDragEnd_def dragUpdater_def Let_def)

lemma example_columns:
  "columns (exampleBoard todo done) ''todo'' =
     Some \<lparr>id_Column = ''todo'', title = ''To Do'', color = ''bg-blue-100'',
           accent = ''bg-blue-500'', taskIds = todo\<rparr>"
  "columns (exampleBoard todo done) ''done'' =
     Some \<lparr>id_Column = ''done'', title = ''Done'', color = ''bg-green-100'',
           accent = ''bg-green-500'', taskIds = done\<rparr>"
  by (simp_all add: exampleBoard_def)

subsection \<open>Content\<close>

lemma insertAt_min: "insertAt (min i (length xs)) x xs = insertAt i x xs"
  by (cases "i \<le> length xs") (simp_all add: insertAt_def min_def)

lemma length_insertAt: "length (insertAt i x xs) = Suc (length xs)"
  by (simp add: insertAt_def)

lemma length_filter_distinct:
  "distinct xs \<Longrightarrow> x \<in> set xs \<Longrightarrow> Suc (length (filter (\<lambda>i. i \<noteq> x) xs)) = length xs"
proof (induction xs)
  case Nil
  then show ?case by simp
next
  case (Cons a xs)
  show ?case
  proof (cases "a = x")
    case True
    with Cons.prems have "x \<notin> set xs" by simp
    then have "filter (\<lambda>i. i \<noteq> x) xs = xs" by (auto simp: filter_id_conv)
    with True show ?thesis by simp
  next
    case False
    with Cons show ?thesis by simp
  qed
qed

lemma not_contentBoundedI:
  "tasks b t = Some task \<Longrightarrow> 300 < length (content_Task task) \<Longrightarrow> \<not> contentBounded b"
  unfolding contentBounded_def by fastforce

lemma trim_nonempty: "trim c \<noteq> [] \<Longrightarrow> c \<noteq> []"
  using trim_Nil by blast

lemma contentBounded_upd:
  "contentBounded b \<Longrightarrow> c \<noteq> [] \<Longrightarrow> length c \<le> 300 \<Longrightarrow> content_Task task = c \<Longrightarrow>
     tasks b' = (tasks b)(t \<mapsto> task) \<Longrightarrow> contentBounded b'"
  unfolding contentBounded_def by (auto split: if_splits)

lemma contentBounded_same:
  "contentBounded b \<Longrightarrow> tasks b' = tasks b \<Longrightarrow> contentBounded b'"
  unfolding contentBounded_def by simp

lemma contentBounded_del:
  "contentBounded b \<Longrightarrow> tasks b' = (tasks b)(t := None) \<Longrightarrow> contentBounded b'"
  unfolding contentBounded_def by (auto split: if_splits)

lemma create_content:
  assumes cb: "contentBounded (board st)" and len: "length c \<le> 300"
    and p: "perform now (CreateTask cid c) st = Inr st'"
  shows "contentBounded (board st')"
proof (cases "trim c = []")
  case True
  with p have "board st' = board st"
    by (auto simp: perform_CreateTask onChange_def openNewTaskModal_def simp del: perform.simps)
  with cb show ?thesis by simp
next
  case False
  with p obtain col where "columns (board st) cid = Some col"
    by (auto simp: perform_CreateTask simp del: perform.simps split: option.splits)
  with p False have "tasks (board st') = (tasks (board st))(newTaskId now \<mapsto>
      \<lparr>id_Task = Some (newTaskId now), content_Task = c\<rparr>)"
    by (auto simp: perform_CreateTask simp del: perform.simps)
  from contentBounded_upd[OF cb trim_nonempty[OF False] len _ this] show ?thesis by simp
qed

lemma perform_content:
  assumes cb: "contentBounded (board st)" and len: "length (typed opn) \<le> 300"
    and p: "perform now opn st = Inr st'"
  shows "contentBounded (board st')"
proof (cases opn)
  case (CreateTask cid c)
  with create_content[OF cb _ p[unfolded CreateTask]] len show ?thesis by simp
next
  case (EditTask tid cid c)
  from p EditTask obtain t where t: "tasks (board st) tid = Some t"
    by (auto simp: perform_EditTask simp del: perform.simps split: option.splits)
  show ?thesis
  proof (cases "trim c = []")
    case True
    with p EditTask t have "board st' = board st"
      by (auto simp: perform_EditTask simp del: perform.simps)
    with cb show ?thesis by simp
  next
    case nb: False
    show ?thesis
    proof (cases "tid = []")
      case True
      with p EditTask t nb have "perform now (CreateTask cid c) st = Inr st'"
        by (simp add: perform_EditTask del: perform.simps)
      from create_content[OF cb _ this] len EditTask show ?thesis by simp
    next
      case False
      with p EditTask t nb have "tasks (board st') = (tasks (board st))(tid \<mapsto> t\<lparr>content_Task := c\<rparr>)"
        by (auto simp: perform_EditTask simp del: perform.simps)
      from contentBounded_upd[OF cb trim_nonempty[OF nb] _ _ this] len EditTask show ?thesis by simp
    qed
  qed
next
  case (DeleteTask tid cid)
  with p have "tasks (board st') = (tasks (board st))(tid := None)"
    by (auto simp: perform_DeleteTask simp del: perform.simps split: option.splits)
  from contentBounded_del[OF cb this] show ?thesis .
next
  case (MoveTask r)
  with p have "tasks (board st') = tasks (board st)"
    by (auto simp: onDragEnd_def dest: dragUpdater_tasks split: option.splits if_splits sum.splits)
  from contentBounded_same[OF cb this] show ?thesis .
qed

lemma run_content:
  "contentBounded (board st) \<Longrightarrow> withinMaxLength es \<Longrightarrow> run es st = Inr st' \<Longrightarrow>
     contentBounded (board st')"
proof (induction es arbitrary: st)
  case Nil
  then show ?case by simp
next
  case (Cons e es)
  obtain now opn where e: "e = (now, opn)" by (cases e)
  from Cons.prems(3) e obtain st1 where st1: "perform now opn st = Inr st1" "run es st1 = Inr st'"
    by (auto split: sum.splits)
  from Cons.prems(2) e have len: "length (typed opn) \<le> 300" and rest: "withinMaxLength es"
    by (simp_all add: withinMaxLength_def)
  from Cons.IH[OF perform_content[OF Cons.prems(1) len st1(1)] rest st1(2)] show ?case .
qed

lemma withinMaxLength_take: "withinMaxLength es \<Longrightarrow> withinMaxLength (take n es)"
  unfolding withinMaxLength_def list_all_iff by (auto dest: in_set_takeD)

lemma initial_contentBounded: "contentBounded (board initialApp)"
  by (simp add: contentBounded_def initialApp_def initial_tasks)

lemma example_run_result:
  "run exampleRun initialApp =
     Inr (initialApp\<lparr>board := (getInitialData None)\<lparr>
            tasks := [''task-5'' \<mapsto> \<lparr>id_Task = Some ''task-5'', content_Task = [0x7A]\<rparr>],
            columns := (columns (getInitialData None))
               (''todo'' \<mapsto> \<lparr>id_Column = ''todo'', title = ''To Do'', color = ''bg-blue-100'',
                              accent = ''bg-blue-500'', taskIds = []\<rparr>,
                ''done'' \<mapsto> \<lparr>id_Column = ''done'', title = ''Done'', color = ''bg-green-100'',
                              accent = ''bg-green-500'', taskIds = [''task-5'']\<rparr>)\<rparr>\<rparr>)"
  by (simp add: exampleRun_def eval_simps fun_upd_twist del: perform.simps(1) perform.simps(2) perform.simps(3))

lemma after_create_5:
  "tasks (board (projr (perform 5 (CreateTask ''todo'' [0x78]) initialApp))) =
     [newTaskId 5 \<mapsto> \<lparr>id_Task = Some (newTaskId 5), content_Task = [0x78]\<rparr>]"
  by (simp add: perform_CreateTask trim_eq_Nil isWhiteSpace_def initialApp_def initial_columns
      initial_tasks del: perform.simps)

lemma example_tasks:
  "tasks (exampleBoard [''a'', ''b''] [''c'']) ''missing'' = None"
  "tasks (exampleBoard [''a'', ''b''] [''c'']) ''a'' = Some \<lparr>id_Task = Some ''a'', content_Task = [0x78]\<rparr>"
  by (simp_all add: exampleBoard_def)

lemma example_invariant1: "invariant1 (exampleBoard [''a'', ''b''] [''c''])"
  by (auto simp: invariant1_def exampleBoard_def split: if_splits)

lemma after_create_7:
  "perform 7 (CreateTask ''todo'' [0x78]) initialApp =
     Inr (initialApp\<lparr>board := (getInitialData None)\<lparr>
            tasks := [newTaskId 7 \<mapsto> \<lparr>id_Task = Some (newTaskId 7), content_Task = [0x78]\<rparr>],
            columns := (columns (getInitialData None))
               (''todo'' \<mapsto> \<lparr>id_Column = ''todo'', title = ''To Do'', color = ''bg-blue-100'',
                              accent = ''bg-blue-500'', taskIds = [newTaskId 7]\<rparr>)\<rparr>\<rparr>)"
  by (simp add: perform_CreateTask trim_eq_Nil isWhiteSpace_def initialApp_def initial_columns
      initial_tasks del: perform.simps)

section \<open>The claims\<close>

text \<open>
  C1, as amended. Take any run from the initial board in which every operation meets its
  precondition and every creation happens at a clock reading whose generated id is not
  yet a key of \<open>tasks\<close>. Then every prefix of the run completes, and after it the three
  invariants hold: every listed id is a task, every task is listed in exactly one column
  and once, and \<open>columnOrder\<close> lists the columns' keys without repetition.
\<close>

theorem invariants_preserved:
  assumes "preconditionsHold initialApp es" and "idsFresh initialApp es"
  shows "\<not> isl (run (take n es) initialApp) \<and>
         invariants (board (projr (run (take n es) initialApp)))"
proof -
  have "invariants (board initialApp) \<and> keyed (board initialApp)"
    using initial_wellFormed by (simp add: initialApp_def)
  from run_preserves[OF this preconditionsHold_take[OF assms(1)] idsFresh_take[OF assms(2)]]
  obtain st' where "run (take n es) initialApp = Inr st'" "invariants (board st')" by blast
  then show ?thesis by simp
qed

text \<open>C1, witness: the example run of five operations, after all five.\<close>

theorem invariants_preserved_witness:
  "preconditionsHold initialApp exampleRun \<and> idsFresh initialApp exampleRun \<and>
   \<not> isl (run (take 5 exampleRun) initialApp) \<and>
   invariants (board (projr (run (take 5 exampleRun) initialApp)))"
proof -
  have p: "preconditionsHold initialApp exampleRun"
    by (simp add: exampleRun_def eval_simps del: perform.simps(1) perform.simps(2) perform.simps(3))
  have f: "idsFresh initialApp exampleRun"
    by (simp add: exampleRun_def eval_simps del: perform.simps(1) perform.simps(2) perform.simps(3))
  from invariants_preserved[OF p f, of 5] p f show ?thesis by simp
qed

text \<open>
  C1, counterexample to the claim as stated: two valid creations at one clock reading
  generate the same id, and the column then lists it twice.
\<close>

theorem invariants_same_clock_counterexample:
  "preconditionsHold initialApp sameClockRun \<and>
   \<not> isl (run sameClockRun initialApp) \<and>
   \<not> invariants (board (projr (run sameClockRun initialApp)))"
proof -
  have p: "preconditionsHold initialApp sameClockRun"
    by (simp add: sameClockRun_def eval_simps del: perform.simps(1) perform.simps(2) perform.simps(3))
  have r: "\<not> isl (run sameClockRun initialApp)"
    by (simp add: sameClockRun_def eval_simps del: perform.simps(1) perform.simps(2) perform.simps(3))
  have c: "columns (board (projr (run sameClockRun initialApp))) ''todo'' =
      Some \<lparr>id_Column = ''todo'', title = ''To Do'', color = ''bg-blue-100'', accent = ''bg-blue-500'',
            taskIds = [''task-5'', ''task-5'']\<rparr>"
    by (simp add: sameClockRun_def eval_simps del: perform.simps(1) perform.simps(2) perform.simps(3))
  have "\<not> invariant2 (board (projr (run sameClockRun initialApp)))"
    by (rule not_invariant2I[OF c]) simp
  with p r show ?thesis by (simp add: invariants_def)
qed

text \<open>
  C2. On any board whose column \<open>k\<close> is stored under its id, a move report inside \<open>k\<close>
  whose source index holds the moved id removes the id at the source index and then
  inserts it at the destination index of the shortened sequence. (A destination index
  beyond the shortened sequence inserts at its end, as \<open>insertAt\<close> and \<open>splice\<close> both do.)
\<close>

theorem moveTask_same_column:
  assumes "columns (board st) k = Some col" and "id_Column col = k"
    and "0 \<le> si" and "nat si < length (taskIds col)" and "taskIds col ! nat si = tid"
    and "0 \<le> di"
  shows "perform now (MoveTask (report tid k si k di)) st =
     Inr (st\<lparr>board := (board st)\<lparr>columns := (columns (board st))(k \<mapsto>
            col\<lparr>taskIds := insertAt (nat di) tid (removeAt (nat si) (taskIds col))\<rparr>)\<rparr>\<rparr>)"
proof (cases "di = si")
  case True
  have "insertAt (nat si) tid (removeAt (nat si) (taskIds col)) = taskIds col"
    using insertAt_removeAt_same[OF assms(4)] assms(5) by simp
  then have "(columns (board st))(k \<mapsto> col\<lparr>taskIds := insertAt (nat di) tid (removeAt (nat si) (taskIds col))\<rparr>)
      = columns (board st)"
    using True assms(1) by (simp add: map_upd_triv)
  then show ?thesis using True perform_move_same[OF assms(1), of now tid si di] by simp
next
  case False
  then show ?thesis
    using perform_move_same[OF assms(1), of now tid si di] assms(2)
      splice_remove[OF assms(3), of "taskIds col"]
      splice_insert[OF assms(6), of "removeAt (nat si) (taskIds col)" tid]
    by simp
qed

text \<open>C2, witness: with \<open>todo = [a, b, c]\<close>, moving \<open>b\<close> from index 1 to index 0 gives \<open>[b, a, c]\<close>.\<close>

theorem moveTask_same_column_witness:
  "columns (board (exampleApp [''a'', ''b'', ''c''] [])) ''todo'' =
     Some \<lparr>id_Column = ''todo'', title = ''To Do'', color = ''bg-blue-100'',
           accent = ''bg-blue-500'', taskIds = [''a'', ''b'', ''c'']\<rparr> \<and>
   map_option taskIds
     (columns (board (projr (perform 0 (MoveTask (report ''b'' ''todo'' 1 ''todo'' 0))
                               (exampleApp [''a'', ''b'', ''c''] [])))) ''todo'') =
     Some [''b'', ''a'', ''c'']"
proof -
  have c: "columns (board (exampleApp [''a'', ''b'', ''c''] [])) ''todo'' =
     Some \<lparr>id_Column = ''todo'', title = ''To Do'', color = ''bg-blue-100'',
           accent = ''bg-blue-500'', taskIds = [''a'', ''b'', ''c'']\<rparr>"
    by (simp add: exampleApp_def example_columns)
  from moveTask_same_column[OF c, of 1 "''b''" 0 0] c show ?thesis
    by (simp add: insertAt_def removeAt_def)
qed

text \<open>
  C3. On any board, a move report between two different columns stored under their ids
  removes the id at the source index of the source column, inserts the moved id into the
  destination column at the destination index, read against the destination's own
  sequence, and leaves \<open>tasks\<close> and \<open>columnOrder\<close> as they were.
\<close>

theorem moveTask_cross_column:
  assumes "columns (board st) k = Some start" and "id_Column start = k"
    and "columns (board st) k' = Some finish" and "id_Column finish = k'"
    and "k \<noteq> k'" and "0 \<le> si" and "0 \<le> di"
  shows "\<exists>st'. perform now (MoveTask (report tid k si k' di)) st = Inr st' \<and>
     columns (board st') = (columns (board st))
        (k \<mapsto> start\<lparr>taskIds := removeAt (nat si) (taskIds start)\<rparr>,
         k' \<mapsto> finish\<lparr>taskIds := insertAt (nat di) tid (taskIds finish)\<rparr>) \<and>
     tasks (board st') = tasks (board st) \<and> columnOrder (board st') = columnOrder (board st)"
  using perform_move_cross[OF assms(1) assms(3) assms(5), of now tid si di] assms(2) assms(4)
    splice_remove[OF assms(6), of "taskIds start"]
    splice_insert[OF assms(7), of "taskIds finish" tid]
  by simp

text \<open>
  C3, witness: with \<open>todo = [a, b]\<close> and \<open>done = [c]\<close>, moving \<open>a\<close> from \<open>todo\<close> index 0 to
  \<open>done\<close> index 1 gives \<open>todo = [b]\<close> and \<open>done = [c, a]\<close>.
\<close>

theorem moveTask_cross_column_witness:
  "columns (board (exampleApp [''a'', ''b''] [''c''])) ''todo'' =
     Some \<lparr>id_Column = ''todo'', title = ''To Do'', color = ''bg-blue-100'',
           accent = ''bg-blue-500'', taskIds = [''a'', ''b'']\<rparr> \<and>
   columns (board (exampleApp [''a'', ''b''] [''c''])) ''done'' =
     Some \<lparr>id_Column = ''done'', title = ''Done'', color = ''bg-green-100'',
           accent = ''bg-green-500'', taskIds = [''c'']\<rparr> \<and>
   map_option taskIds
     (columns (board (projr (perform 0 (MoveTask (report ''a'' ''todo'' 0 ''done'' 1))
                               (exampleApp [''a'', ''b''] [''c''])))) ''todo'') = Some [''b''] \<and>
   map_option taskIds
     (columns (board (projr (perform 0 (MoveTask (report ''a'' ''todo'' 0 ''done'' 1))
                               (exampleApp [''a'', ''b''] [''c''])))) ''done'') = Some [''c'', ''a''] \<and>
   tasks (board (projr (perform 0 (MoveTask (report ''a'' ''todo'' 0 ''done'' 1))
                               (exampleApp [''a'', ''b''] [''c''])))) =
     tasks (board (exampleApp [''a'', ''b''] [''c'']))"
proof -
  have s: "columns (board (exampleApp [''a'', ''b''] [''c''])) ''todo'' =
     Some \<lparr>id_Column = ''todo'', title = ''To Do'', color = ''bg-blue-100'',
           accent = ''bg-blue-500'', taskIds = [''a'', ''b'']\<rparr>"
    by (simp add: exampleApp_def example_columns)
  have f: "columns (board (exampleApp [''a'', ''b''] [''c''])) ''done'' =
     Some \<lparr>id_Column = ''done'', title = ''Done'', color = ''bg-green-100'',
           accent = ''bg-green-500'', taskIds = [''c'']\<rparr>"
    by (simp add: exampleApp_def example_columns)
  from moveTask_cross_column[OF s _ f, of 0 1 0 "''a''"] s f show ?thesis
    by (auto simp: insertAt_def removeAt_def)
qed

text \<open>
  C4, as amended. A move is never rejected for being inconsistent with the board. On any
  board, a report between two different columns stored under their ids, with indices
  that are not negative, succeeds and changes the board, whether or not the source index
  holds the reported id and whether or not the destination index lies within the
  destination: the source column loses what its source index holds (nothing, beyond its
  end), and the destination column receives the reported id at the destination index or,
  beyond its end, at its end.
\<close>

theorem moveTask_not_rejected:
  assumes "columns (board st) k = Some start" and "id_Column start = k"
    and "columns (board st) k' = Some finish" and "id_Column finish = k'"
    and "k \<noteq> k'" and "0 \<le> si" and "0 \<le> di"
  shows "\<not> isl (perform now (MoveTask (report tid k si k' di)) st) \<and>
     board (projr (perform now (MoveTask (report tid k si k' di)) st)) \<noteq> board st \<and>
     map_option taskIds (columns (board (projr (perform now (MoveTask (report tid k si k' di)) st))) k) =
       Some (removeAt (nat si) (taskIds start)) \<and>
     map_option taskIds (columns (board (projr (perform now (MoveTask (report tid k si k' di)) st))) k') =
       Some (insertAt (min (nat di) (length (taskIds finish))) tid (taskIds finish))"
proof -
  let ?C = "(columns (board st))
            (k \<mapsto> start\<lparr>taskIds := removeAt (nat si) (taskIds start)\<rparr>,
             k' \<mapsto> finish\<lparr>taskIds := insertAt (nat di) tid (taskIds finish)\<rparr>)"
  have e: "perform now (MoveTask (report tid k si k' di)) st =
      Inr (st\<lparr>board := (board st)\<lparr>columns := ?C\<rparr>\<rparr>)"
    using perform_move_cross[OF assms(1) assms(3) assms(5), of now tid si di] assms(2) assms(4)
      splice_remove[OF assms(6), of "taskIds start"]
      splice_insert[OF assms(7), of "taskIds finish" tid]
    by simp
  have "length (taskIds (finish\<lparr>taskIds := insertAt (nat di) tid (taskIds finish)\<rparr>)) \<noteq> length (taskIds finish)"
    by (simp add: length_insertAt)
  then have "finish\<lparr>taskIds := insertAt (nat di) tid (taskIds finish)\<rparr> \<noteq> finish" by metis
  then have "?C k' \<noteq> columns (board st) k'" using assms(3) by simp
  then have "?C \<noteq> columns (board st)" by metis
  then have ne: "(board st)\<lparr>columns := ?C\<rparr> \<noteq> board st"
    by (metis BoardData.select_convs(2) BoardData.surjective BoardData.update_convs(2))
  show ?thesis unfolding e using ne assms(5) by (simp add: insertAt_min)
qed

text \<open>
  C4, witness: with \<open>todo = [a, b]\<close> and \<open>done = [c]\<close>, a report that \<open>b\<close> moved from \<open>todo\<close>
  index 0 (which holds \<open>a\<close>) to \<open>done\<close> index 9.
\<close>

theorem moveTask_not_rejected_witness:
  "columns (board (exampleApp [''a'', ''b''] [''c''])) ''todo'' =
     Some \<lparr>id_Column = ''todo'', title = ''To Do'', color = ''bg-blue-100'',
           accent = ''bg-blue-500'', taskIds = [''a'', ''b'']\<rparr> \<and>
   columns (board (exampleApp [''a'', ''b''] [''c''])) ''done'' =
     Some \<lparr>id_Column = ''done'', title = ''Done'', color = ''bg-green-100'',
           accent = ''bg-green-500'', taskIds = [''c'']\<rparr> \<and>
   \<not> isl (perform 0 (MoveTask (report ''b'' ''todo'' 0 ''done'' 9)) (exampleApp [''a'', ''b''] [''c''])) \<and>
   board (projr (perform 0 (MoveTask (report ''b'' ''todo'' 0 ''done'' 9)) (exampleApp [''a'', ''b''] [''c'']))) \<noteq>
     board (exampleApp [''a'', ''b''] [''c'']) \<and>
   map_option taskIds
     (columns (board (projr (perform 0 (MoveTask (report ''b'' ''todo'' 0 ''done'' 9))
                               (exampleApp [''a'', ''b''] [''c''])))) ''todo'') = Some [''b''] \<and>
   map_option taskIds
     (columns (board (projr (perform 0 (MoveTask (report ''b'' ''todo'' 0 ''done'' 9))
                               (exampleApp [''a'', ''b''] [''c''])))) ''done'') = Some [''c'', ''b'']"
proof -
  have s: "columns (board (exampleApp [''a'', ''b''] [''c''])) ''todo'' =
     Some \<lparr>id_Column = ''todo'', title = ''To Do'', color = ''bg-blue-100'',
           accent = ''bg-blue-500'', taskIds = [''a'', ''b'']\<rparr>"
    by (simp add: exampleApp_def example_columns)
  have f: "columns (board (exampleApp [''a'', ''b''] [''c''])) ''done'' =
     Some \<lparr>id_Column = ''done'', title = ''Done'', color = ''bg-green-100'',
           accent = ''bg-green-500'', taskIds = [''c'']\<rparr>"
    by (simp add: exampleApp_def example_columns)
  from moveTask_not_rejected[OF s _ f, of 0 9 0 "''b''"] s f show ?thesis
    by (simp add: insertAt_def removeAt_def)
qed

text \<open>
  C4, counterexample to the claim as stated: a report that \<open>b\<close> left \<open>todo\<close> index 0, which
  holds \<open>a\<close>, is applied (\<open>a\<close> leaves \<open>todo\<close>, \<open>b\<close> is now listed twice); and a report with
  destination index 7 into a column of one task is applied at the end.
\<close>

theorem moveTask_stale_counterexample:
  "taskIds (the (columns (board (exampleApp [''a'', ''b''] [''c''])) ''todo'')) ! 0 \<noteq> ''b'' \<and>
   \<not> isl (perform 0 (MoveTask (report ''b'' ''todo'' 0 ''done'' 0)) (exampleApp [''a'', ''b''] [''c''])) \<and>
   map_option taskIds
     (columns (board (projr (perform 0 (MoveTask (report ''b'' ''todo'' 0 ''done'' 0))
                               (exampleApp [''a'', ''b''] [''c''])))) ''todo'') = Some [''b''] \<and>
   map_option taskIds
     (columns (board (projr (perform 0 (MoveTask (report ''b'' ''todo'' 0 ''done'' 0))
                               (exampleApp [''a'', ''b''] [''c''])))) ''done'') = Some [''b'', ''c''] \<and>
   \<not> isl (perform 0 (MoveTask (report ''a'' ''todo'' 0 ''done'' 7)) (exampleApp [''a'', ''b''] [''c''])) \<and>
   map_option taskIds
     (columns (board (projr (perform 0 (MoveTask (report ''a'' ''todo'' 0 ''done'' 7))
                               (exampleApp [''a'', ''b''] [''c''])))) ''done'') = Some [''c'', ''a'']"
proof -
  have s: "columns (board (exampleApp [''a'', ''b''] [''c''])) ''todo'' =
     Some \<lparr>id_Column = ''todo'', title = ''To Do'', color = ''bg-blue-100'',
           accent = ''bg-blue-500'', taskIds = [''a'', ''b'']\<rparr>"
    by (simp add: exampleApp_def example_columns)
  have f: "columns (board (exampleApp [''a'', ''b''] [''c''])) ''done'' =
     Some \<lparr>id_Column = ''done'', title = ''Done'', color = ''bg-green-100'',
           accent = ''bg-green-500'', taskIds = [''c'']\<rparr>"
    by (simp add: exampleApp_def example_columns)
  have ne: "''todo'' \<noteq> ''done''" by simp
  show ?thesis
    unfolding perform_move_cross[OF s f ne] using s
    by (simp add: splice_def)
qed

text \<open>
  C5, as amended. On any board whose task keys were all generated at clock readings other
  than the present one, creating a task in an existing column with content that is not
  blank succeeds with a fresh id: the generated id, \<open>"task-"\<close> and the clock reading, is no
  key of \<open>tasks\<close> before; \<open>tasks\<close> gains \<open>{id, content}\<close> under it and keeps every task it
  had; and the column's \<open>taskIds\<close> get the id prepended, so \<open>taskIds[0]\<close> is the new id and
  the new task's content is the given one.
\<close>

theorem createTask_prepends:
  assumes "columns (board st) cid = Some col" and "trim c \<noteq> []"
    and "\<forall>t. tasks (board st) t \<noteq> None \<longrightarrow> (\<exists>n. t = newTaskId n \<and> n \<noteq> now)"
  shows "tasks (board st) (newTaskId now) = None \<and>
     (\<exists>st'. perform now (CreateTask cid c) st = Inr st' \<and>
        tasks (board st') = (tasks (board st))(newTaskId now \<mapsto>
           \<lparr>id_Task = Some (newTaskId now), content_Task = c\<rparr>) \<and>
        columns (board st') = (columns (board st))(cid \<mapsto> col\<lparr>taskIds := newTaskId now # taskIds col\<rparr>) \<and>
        map_option (\<lambda>col'. taskIds col' ! 0) (columns (board st') cid) = Some (newTaskId now) \<and>
        map_option content_Task (tasks (board st') (newTaskId now)) = Some c \<and>
        dom (tasks (board st')) = insert (newTaskId now) (dom (tasks (board st))) \<and>
        (\<forall>t task. tasks (board st) t = Some task \<longrightarrow> tasks (board st') t = Some task))"
proof -
  have fresh: "tasks (board st) (newTaskId now) = None"
  proof (rule ccontr)
    assume "tasks (board st) (newTaskId now) \<noteq> None"
    with assms(3) obtain n where "newTaskId now = newTaskId n" "n \<noteq> now" by blast
    then show False using newTaskId_inj by blast
  qed
  let ?T = "(tasks (board st))(newTaskId now \<mapsto> \<lparr>id_Task = Some (newTaskId now), content_Task = c\<rparr>)"
  let ?C = "(columns (board st))(cid \<mapsto> col\<lparr>taskIds := newTaskId now # taskIds col\<rparr>)"
  let ?st = "st\<lparr>board := (board st)\<lparr>tasks := ?T, columns := ?C\<rparr>, showModal := False, modalTask := None\<rparr>"
  have e: "perform now (CreateTask cid c) st = Inr ?st"
    unfolding perform_CreateTask using assms(1,2) by simp
  have t: "tasks (board ?st) = ?T" and cs: "columns (board ?st) = ?C" by simp_all
  have keep: "\<forall>t task. tasks (board st) t = Some task \<longrightarrow> ?T t = Some task"
    using fresh by auto
  have d: "dom ?T = insert (newTaskId now) (dom (tasks (board st)))" by simp
  have "perform now (CreateTask cid c) st = Inr ?st \<and>
        tasks (board ?st) = ?T \<and> columns (board ?st) = ?C \<and>
        map_option (\<lambda>col'. taskIds col' ! 0) (columns (board ?st) cid) = Some (newTaskId now) \<and>
        map_option content_Task (tasks (board ?st) (newTaskId now)) = Some c \<and>
        dom (tasks (board ?st)) = insert (newTaskId now) (dom (tasks (board st))) \<and>
        (\<forall>t task. tasks (board st) t = Some task \<longrightarrow> tasks (board ?st) t = Some task)"
    unfolding t cs using e keep d by simp
  then show ?thesis using fresh by blast
qed


text \<open>
  C5, witness: after creating \<open>x\<close> at reading 7, creating \<open>y\<close> at reading 8 in the same
  column.
\<close>

theorem createTask_prepends_witness:
  "columns (board (projr (perform 7 (CreateTask ''todo'' [0x78]) initialApp))) ''todo'' =
     Some \<lparr>id_Column = ''todo'', title = ''To Do'', color = ''bg-blue-100'',
           accent = ''bg-blue-500'', taskIds = [''task-7'']\<rparr> \<and>
   trim [0x79] \<noteq> [] \<and>
   tasks (board (projr (perform 7 (CreateTask ''todo'' [0x78]) initialApp))) =
     [newTaskId 7 \<mapsto> \<lparr>id_Task = Some (newTaskId 7), content_Task = [0x78]\<rparr>] \<and>
   tasks (board (projr (perform 7 (CreateTask ''todo'' [0x78]) initialApp))) ''task-8'' = None \<and>
   map_option taskIds
     (columns (board (projr (perform 8 (CreateTask ''todo'' [0x79])
                               (projr (perform 7 (CreateTask ''todo'' [0x78]) initialApp))))) ''todo'') =
     Some [''task-8'', ''task-7''] \<and>
   map_option content_Task
     (tasks (board (projr (perform 8 (CreateTask ''todo'' [0x79])
                               (projr (perform 7 (CreateTask ''todo'' [0x78]) initialApp))))) ''task-8'') =
     Some [0x79] \<and>
   map_option content_Task
     (tasks (board (projr (perform 8 (CreateTask ''todo'' [0x79])
                               (projr (perform 7 (CreateTask ''todo'' [0x78]) initialApp))))) ''task-7'') =
     Some [0x78]"
proof -
  let ?s = "projr (perform 7 (CreateTask ''todo'' [0x78]) initialApp)"
  have n7: "newTaskId 7 = ''task-7''" by (simp add: newTaskId_def numberToString_def digit_def)
  have n8: "newTaskId 8 = ''task-8''" by (simp add: newTaskId_def numberToString_def digit_def)
  have c: "columns (board ?s) ''todo'' =
     Some \<lparr>id_Column = ''todo'', title = ''To Do'', color = ''bg-blue-100'',
           accent = ''bg-blue-500'', taskIds = [''task-7'']\<rparr>"
    unfolding after_create_7 by (simp add: n7)
  have k: "tasks (board ?s) =
     [newTaskId 7 \<mapsto> \<lparr>id_Task = Some (newTaskId 7), content_Task = [0x78]\<rparr>]"
    unfolding after_create_7 by simp
  have t: "trim [0x79] \<noteq> []" by (simp add: trim_eq_Nil isWhiteSpace_def)
  have h: "\<forall>t. tasks (board ?s) t \<noteq> None \<longrightarrow> (\<exists>n. t = newTaskId n \<and> n \<noteq> 8)"
    unfolding k by (auto split: if_splits)
  from createTask_prepends[OF c t h] obtain st' where
    p: "perform 8 (CreateTask ''todo'' [0x79]) ?s = Inr st'"
    and cs: "columns (board st') = (columns (board ?s))(''todo'' \<mapsto>
        \<lparr>id_Column = ''todo'', title = ''To Do'', color = ''bg-blue-100'',
         accent = ''bg-blue-500'', taskIds = [''task-7'']\<rparr>\<lparr>taskIds := newTaskId 8 # [''task-7'']\<rparr>)"
    and nc: "map_option content_Task (tasks (board st') (newTaskId 8)) = Some [0x79]"
    and keep: "\<forall>t task. tasks (board ?s) t = Some task \<longrightarrow> tasks (board st') t = Some task"
    and fr: "tasks (board ?s) (newTaskId 8) = None"
    by auto
  have old: "tasks (board ?s) ''task-7'' = Some \<lparr>id_Task = Some ''task-7'', content_Task = [0x78]\<rparr>"
    unfolding k by (simp add: n7)
  from keep old have o7: "tasks (board st') ''task-7'' = Some \<lparr>id_Task = Some ''task-7'', content_Task = [0x78]\<rparr>"
    by blast
  have r: "projr (perform 8 (CreateTask ''todo'' [0x79]) ?s) = st'" unfolding p by simp
  show ?thesis
    unfolding r using c t k fr nc o7 cs by (simp add: n8)
qed

text \<open>
  C5, counterexample to the claim as stated: on the board after a creation at reading 7,
  the column exists and the content is not blank, yet a creation at reading 7 generates an
  id that is already a key of \<open>tasks\<close>, and the column then lists it twice.
\<close>

theorem createTask_not_fresh_counterexample:
  "columns (board (projr (perform 7 (CreateTask ''todo'' [0x78]) initialApp))) ''todo'' \<noteq> None \<and>
   trim [0x79] \<noteq> [] \<and>
   tasks (board (projr (perform 7 (CreateTask ''todo'' [0x78]) initialApp))) (newTaskId 7) \<noteq> None \<and>
   map_option taskIds
     (columns (board (projr (perform 7 (CreateTask ''todo'' [0x79])
                               (projr (perform 7 (CreateTask ''todo'' [0x78]) initialApp))))) ''todo'') =
     Some [newTaskId 7, newTaskId 7]"
proof -
  have t: "trim [0x79] \<noteq> []" by (simp add: trim_eq_Nil isWhiteSpace_def)
  show ?thesis
    unfolding after_create_7 using t by (simp add: perform_CreateTask del: perform.simps)
qed

text \<open>
  C6, as amended. Saving content that trims to the empty string, for a creation or for an
  edit, returns normally and leaves the whole state as it was: the board is the same and
  the modal is still open, where a save that goes through closes it. No error value is
  produced. Saving content that is not blank for a non-empty id that is a key of \<open>tasks\<close>
  replaces the content of that task and nothing else of the board.
\<close>

theorem save_blank_silent:
  assumes "modalTask st = Some m"
  shows "(trim (content_ModalTask m) = [] \<longrightarrow> handleModalSave now st = Inr st) \<and>
     (trim (content_ModalTask m) \<noteq> [] \<and> id_ModalTask m = Some tid \<and> tid \<noteq> [] \<and>
      tasks (board st) tid = Some t \<longrightarrow>
        handleModalSave now st =
          Inr (st\<lparr>board := (board st)\<lparr>tasks := (tasks (board st))(tid \<mapsto> t\<lparr>content_Task := content_ModalTask m\<rparr>)\<rparr>,
                  showModal := False, modalTask := None\<rparr>))"
  using assms by (simp add: handleModalSave_def truthy_def editUpdater_def closeModal_def)

text \<open>
  C6, witness: creating three spaces on the initial board changes nothing but the open
  modal; editing \<open>a\<close> to \<open>y\<close> stores \<open>y\<close> under \<open>a\<close>.
\<close>

theorem save_blank_silent_witness:
  "modalTask (onChange [0x20, 0x20, 0x20] (openNewTaskModal ''todo'' initialApp)) =
     Some \<lparr>id_ModalTask = None, content_ModalTask = [0x20, 0x20, 0x20], columnId_ModalTask = ''todo''\<rparr> \<and>
   trim [0x20, 0x20, 0x20] = [] \<and>
   perform 0 (CreateTask ''todo'' [0x20, 0x20, 0x20]) initialApp =
     Inr (onChange [0x20, 0x20, 0x20] (openNewTaskModal ''todo'' initialApp)) \<and>
   trim [0x79] \<noteq> [] \<and>
   tasks (board (exampleApp [''a'', ''b''] [''c''])) ''a'' = Some \<lparr>id_Task = Some ''a'', content_Task = [0x78]\<rparr> \<and>
   tasks (board (projr (perform 0 (EditTask ''a'' ''todo'' [0x79]) (exampleApp [''a'', ''b''] [''c''])))) ''a'' =
     Some \<lparr>id_Task = Some ''a'', content_Task = [0x79]\<rparr>"
proof -
  let ?s1 = "onChange [0x20, 0x20, 0x20] (openNewTaskModal ''todo'' initialApp)"
  let ?m1 = "\<lparr>id_ModalTask = None, content_ModalTask = [0x20, 0x20, 0x20], columnId_ModalTask = ''todo''\<rparr>"
  have m1: "modalTask ?s1 = Some ?m1" by (simp add: onChange_def openNewTaskModal_def)
  have b: "trim [0x20, 0x20, 0x20] = []" by (simp add: trim_eq_Nil isWhiteSpace_def)
  let ?s2 = "onChange [0x79] (projr (openEditTaskModal ''a'' ''todo'' (exampleApp [''a'', ''b''] [''c''])))"
  let ?m2 = "\<lparr>id_ModalTask = Some ''a'', content_ModalTask = [0x79], columnId_ModalTask = ''todo''\<rparr>"
  have ta: "tasks (board (exampleApp [''a'', ''b''] [''c''])) ''a'' = Some \<lparr>id_Task = Some ''a'', content_Task = [0x78]\<rparr>"
    by (simp add: exampleApp_def example_tasks)
  have o2: "openEditTaskModal ''a'' ''todo'' (exampleApp [''a'', ''b''] [''c'']) =
      Inr ((exampleApp [''a'', ''b''] [''c''])\<lparr>modalTask := Some \<lparr>id_ModalTask = Some ''a'', content_ModalTask = [0x78],
              columnId_ModalTask = ''todo''\<rparr>, showModal := True\<rparr>)"
    using ta by (simp add: openEditTaskModal_def)
  have m2: "modalTask ?s2 = Some ?m2" unfolding o2 by (simp add: onChange_def)
  have t2: "tasks (board ?s2) ''a'' = Some \<lparr>id_Task = Some ''a'', content_Task = [0x78]\<rparr>"
    unfolding o2 using ta by (simp add: onChange_def)
  have nb: "trim [0x79] \<noteq> []" by (simp add: trim_eq_Nil isWhiteSpace_def)
  have p2: "perform 0 (EditTask ''a'' ''todo'' [0x79]) (exampleApp [''a'', ''b''] [''c'']) = handleModalSave 0 ?s2"
    unfolding perform.simps o2 by simp
  from save_blank_silent[OF m1, of 0] save_blank_silent[OF m2, of 0 "''a''"] m1 b nb ta t2 p2
  show ?thesis by simp
qed

text \<open>
  C6, counterexample to the claim as stated: saving an edit whose id is no key of \<open>tasks\<close>
  does not fail; it stores a task without an id under that key.
\<close>

theorem save_absent_edit_counterexample:
  "tasks (board staleEditApp) ''missing-id'' = None \<and>
   \<not> isl (handleModalSave 0 staleEditApp) \<and>
   tasks (board (projr (handleModalSave 0 staleEditApp))) ''missing-id'' =
     Some \<lparr>id_Task = None, content_Task = [0x78]\<rparr>"
  by (simp add: staleEditApp_def initialApp_def initial_tasks handleModalSave_def truthy_def
      editUpdater_def closeModal_def trim_eq_Nil isWhiteSpace_def)

text \<open>
  C7, as amended. A delete request naming an existing column: when that column lists the
  task once, the task leaves \<open>tasks\<close> and the column's \<open>taskIds\<close> shrink by exactly one;
  when the task id is no key of \<open>tasks\<close>, on a board where every listed id is a task, the
  delete returns normally with the board identical: a silent no-op, not an error.
\<close>

theorem deleteTask_effect:
  assumes "columns (board st) cid = Some col"
  shows "(tid \<in> set (taskIds col) \<and> distinct (taskIds col) \<longrightarrow>
       \<not> isl (perform now (DeleteTask tid cid) st) \<and>
       tasks (board (projr (perform now (DeleteTask tid cid) st))) tid = None \<and>
       map_option (\<lambda>col'. Suc (length (taskIds col')))
         (columns (board (projr (perform now (DeleteTask tid cid) st))) cid) = Some (length (taskIds col))) \<and>
     (tasks (board st) tid = None \<and> invariant1 (board st) \<longrightarrow>
       perform now (DeleteTask tid cid) st = Inr (st\<lparr>deleting := None\<rparr>))"
proof (intro conjI impI)
  assume h: "tid \<in> set (taskIds col) \<and> distinct (taskIds col)"
  show "\<not> isl (perform now (DeleteTask tid cid) st)"
    using assms by (simp add: perform_DeleteTask del: perform.simps)
  show "tasks (board (projr (perform now (DeleteTask tid cid) st))) tid = None"
    using assms by (simp add: perform_DeleteTask del: perform.simps)
  show "map_option (\<lambda>col'. Suc (length (taskIds col')))
         (columns (board (projr (perform now (DeleteTask tid cid) st))) cid) = Some (length (taskIds col))"
    using assms h length_filter_distinct[of "taskIds col" tid]
    by (simp add: perform_DeleteTask del: perform.simps)
next
  assume h: "tasks (board st) tid = None \<and> invariant1 (board st)"
  with assms have "tid \<notin> set (taskIds col)" unfolding invariant1_def by blast
  then have "filter (\<lambda>i. i \<noteq> tid) (taskIds col) = taskIds col" by (auto simp: filter_id_conv)
  then have c: "(columns (board st))(cid \<mapsto> col\<lparr>taskIds := filter (\<lambda>i. i \<noteq> tid) (taskIds col)\<rparr>) = columns (board st)"
    using assms by (simp add: map_upd_triv)
  have t: "(tasks (board st))(tid := None) = tasks (board st)" using h by auto
  show "perform now (DeleteTask tid cid) st = Inr (st\<lparr>deleting := None\<rparr>)"
    using assms c t by (simp add: perform_DeleteTask del: perform.simps)
qed

text \<open>C7, witness: deleting \<open>a\<close> from \<open>todo = [a, b]\<close>, and deleting an id that is no task.\<close>

theorem deleteTask_effect_witness:
  "columns (board (exampleApp [''a'', ''b''] [''c''])) ''todo'' =
     Some \<lparr>id_Column = ''todo'', title = ''To Do'', color = ''bg-blue-100'',
           accent = ''bg-blue-500'', taskIds = [''a'', ''b'']\<rparr> \<and>
   tasks (board (projr (perform 0 (DeleteTask ''a'' ''todo'') (exampleApp [''a'', ''b''] [''c''])))) ''a'' = None \<and>
   map_option (\<lambda>col'. Suc (length (taskIds col')))
     (columns (board (projr (perform 0 (DeleteTask ''a'' ''todo'') (exampleApp [''a'', ''b''] [''c''])))) ''todo'') = Some 2 \<and>
   tasks (board (exampleApp [''a'', ''b''] [''c''])) ''missing'' = None \<and>
   invariant1 (board (exampleApp [''a'', ''b''] [''c''])) \<and>
   perform 0 (DeleteTask ''missing'' ''todo'') (exampleApp [''a'', ''b''] [''c'']) =
     Inr (exampleApp [''a'', ''b''] [''c''])"
proof -
  have s: "columns (board (exampleApp [''a'', ''b''] [''c''])) ''todo'' =
     Some \<lparr>id_Column = ''todo'', title = ''To Do'', color = ''bg-blue-100'',
           accent = ''bg-blue-500'', taskIds = [''a'', ''b'']\<rparr>"
    by (simp add: exampleApp_def example_columns)
  have m: "tasks (board (exampleApp [''a'', ''b''] [''c''])) ''missing'' = None"
    by (simp add: exampleApp_def example_tasks)
  have i: "invariant1 (board (exampleApp [''a'', ''b''] [''c'']))"
    by (simp add: exampleApp_def example_invariant1)
  have d: "(exampleApp [''a'', ''b''] [''c''])\<lparr>deleting := None\<rparr> = exampleApp [''a'', ''b''] [''c'']"
    by (simp add: exampleApp_def)
  from deleteTask_effect[OF s, of "''a''" 0] deleteTask_effect[OF s, of "''missing''" 0] s m i d
  show ?thesis by (simp del: perform.simps)
qed

text \<open>
  C7, counterexample to the claim as stated: deleting an id that is no key of \<open>tasks\<close>
  does not fail; it ends like any delete, with the pending request cleared.
\<close>

theorem deleteTask_absent_counterexample:
  "tasks (board (exampleApp [''a''] [])) ''gone'' = None \<and>
   \<not> isl (perform 0 (DeleteTask ''gone'' ''todo'') (exampleApp [''a''] [])) \<and>
   deleting (projr (perform 0 (DeleteTask ''gone'' ''todo'') (exampleApp [''a''] []))) = None"
  by (simp add: perform_DeleteTask exampleApp_def exampleBoard_def del: perform.simps)

text \<open>
  C8, as amended. The generated id is \<open>"task-"\<close> followed by the decimal clock reading,
  and different readings give different ids. So on a board whose task keys were all
  generated at clock readings other than the present one, the id a creation generates is
  not yet a key of \<open>tasks\<close>.
\<close>

theorem createTask_id_fresh:
  assumes "\<forall>t. tasks b t \<noteq> None \<longrightarrow> (\<exists>n. t = newTaskId n \<and> n \<noteq> now)"
  shows "freshId b now (CreateTask cid c)"
proof -
  have "tasks b (newTaskId now) = None"
  proof (rule ccontr)
    assume "tasks b (newTaskId now) \<noteq> None"
    with assms obtain n where "newTaskId now = newTaskId n" "n \<noteq> now" by blast
    then show False using newTaskId_inj by blast
  qed
  then show ?thesis by simp
qed

text \<open>C8, witness: after a creation at reading 5, a creation at reading 6.\<close>

theorem createTask_id_fresh_witness:
  "(tasks (board (projr (perform 5 (CreateTask ''todo'' [0x78]) initialApp))) =
     [newTaskId 5 \<mapsto> \<lparr>id_Task = Some (newTaskId 5), content_Task = [0x78]\<rparr>]) \<and>
   freshId (board (projr (perform 5 (CreateTask ''todo'' [0x78]) initialApp))) 6
     (CreateTask ''todo'' [0x79])"
proof -
  have h: "\<forall>t. tasks (board (projr (perform 5 (CreateTask ''todo'' [0x78]) initialApp))) t \<noteq> None \<longrightarrow>
      (\<exists>n. t = newTaskId n \<and> n \<noteq> 6)"
    unfolding after_create_5 by (auto split: if_splits)
  from createTask_id_fresh[OF h, of "''todo''" "[0x79]"] after_create_5 show ?thesis by simp
qed

text \<open>
  C8, counterexample to the claim as stated: after a creation at reading 5, the id of a
  second creation at reading 5 is already a key of \<open>tasks\<close>.
\<close>

theorem createTask_id_collision_counterexample:
  "\<not> isl (perform 5 (CreateTask ''todo'' [0x78]) initialApp) \<and>
   \<not> freshId (board (projr (perform 5 (CreateTask ''todo'' [0x78]) initialApp))) 5
       (CreateTask ''todo'' [0x79])"
proof -
  have "\<not> isl (perform 5 (CreateTask ''todo'' [0x78]) initialApp)"
    by (simp add: perform_CreateTask trim_eq_Nil isWhiteSpace_def initialApp_def initial_columns
        del: perform.simps)
  then show ?thesis by (simp add: after_create_5 del: perform.simps)
qed

text \<open>
  C9, as amended. Take any run from the initial board in which every text set in the
  modal has at most 300 code units, as the text area's \<open>maxLength\<close> makes it. After every
  prefix of the run that completes, every task's content is non-empty and at most 300
  code units long. The handlers themselves check that the content is not blank and check
  no length.
\<close>

theorem content_bounded:
  assumes "withinMaxLength es" and "run (take n es) initialApp = Inr st"
  shows "contentBounded (board st)"
  by (rule run_content[OF initial_contentBounded withinMaxLength_take[OF assms(1)] assms(2)])

text \<open>C9, witness: the example run; its one remaining task has content \<open>z\<close>.\<close>

theorem content_bounded_witness:
  "withinMaxLength exampleRun \<and>
   run (take 5 exampleRun) initialApp =
     Inr (initialApp\<lparr>board := (getInitialData None)\<lparr>
            tasks := [''task-5'' \<mapsto> \<lparr>id_Task = Some ''task-5'', content_Task = [0x7A]\<rparr>],
            columns := (columns (getInitialData None))
               (''todo'' \<mapsto> \<lparr>id_Column = ''todo'', title = ''To Do'', color = ''bg-blue-100'',
                              accent = ''bg-blue-500'', taskIds = []\<rparr>,
                ''done'' \<mapsto> \<lparr>id_Column = ''done'', title = ''Done'', color = ''bg-green-100'',
                              accent = ''bg-green-500'', taskIds = [''task-5'']\<rparr>)\<rparr>\<rparr>) \<and>
   contentBounded ((getInitialData None)\<lparr>
            tasks := [''task-5'' \<mapsto> \<lparr>id_Task = Some ''task-5'', content_Task = [0x7A]\<rparr>],
            columns := (columns (getInitialData None))
               (''todo'' \<mapsto> \<lparr>id_Column = ''todo'', title = ''To Do'', color = ''bg-blue-100'',
                              accent = ''bg-blue-500'', taskIds = []\<rparr>,
                ''done'' \<mapsto> \<lparr>id_Column = ''done'', title = ''Done'', color = ''bg-green-100'',
                              accent = ''bg-green-500'', taskIds = [''task-5'']\<rparr>)\<rparr>)"
proof -
  have w: "withinMaxLength exampleRun"
    by (simp add: withinMaxLength_def exampleRun_def)
  have r: "run (take 5 exampleRun) initialApp =
     Inr (initialApp\<lparr>board := (getInitialData None)\<lparr>
            tasks := [''task-5'' \<mapsto> \<lparr>id_Task = Some ''task-5'', content_Task = [0x7A]\<rparr>],
            columns := (columns (getInitialData None))
               (''todo'' \<mapsto> \<lparr>id_Column = ''todo'', title = ''To Do'', color = ''bg-blue-100'',
                              accent = ''bg-blue-500'', taskIds = []\<rparr>,
                ''done'' \<mapsto> \<lparr>id_Column = ''done'', title = ''Done'', color = ''bg-green-100'',
                              accent = ''bg-green-500'', taskIds = [''task-5'']\<rparr>)\<rparr>\<rparr>)"
    using example_run_result by (simp add: exampleRun_def)
  from content_bounded[OF w r] w r show ?thesis by simp
qed

text \<open>
  C9, counterexample to the claim as stated: a creation with 301 code units of content is
  not rejected, the content is stored.
\<close>

theorem content_oversized_counterexample:
  "\<not> isl (perform 5 (CreateTask ''todo'' (replicate 301 0x78)) initialApp) \<and>
   \<not> contentBounded (board (projr (perform 5 (CreateTask ''todo'' (replicate 301 0x78)) initialApp)))"
proof -
  have t: "trim (replicate 301 0x78) \<noteq> []"
    by (simp add: trim_eq_Nil isWhiteSpace_def)
  have c: "columns (board initialApp) ''todo'' \<noteq> None"
    by (simp add: initialApp_def initial_columns)
  then obtain col where col: "columns (board initialApp) ''todo'' = Some col" by blast
  have e: "perform 5 (CreateTask ''todo'' (replicate 301 0x78)) initialApp =
      Inr (initialApp\<lparr>board := (board initialApp)\<lparr>
             tasks := (tasks (board initialApp))(newTaskId 5 \<mapsto>
                \<lparr>id_Task = Some (newTaskId 5), content_Task = replicate 301 0x78\<rparr>),
             columns := (columns (board initialApp))(''todo'' \<mapsto> col\<lparr>taskIds := newTaskId 5 # taskIds col\<rparr>)\<rparr>,
           showModal := False, modalTask := None\<rparr>)"
    unfolding perform_CreateTask using t col by simp
  have k: "tasks (board (projr (perform 5 (CreateTask ''todo'' (replicate 301 0x78)) initialApp))) (newTaskId 5) =
      Some \<lparr>id_Task = Some (newTaskId 5), content_Task = replicate 301 0x78\<rparr>"
    unfolding e by simp
  have "\<not> contentBounded (board (projr (perform 5 (CreateTask ''todo'' (replicate 301 0x78)) initialApp)))"
    by (rule not_contentBoundedI[OF k]) simp
  then show ?thesis unfolding e by simp
qed

text \<open>
  C10. A delete request \<open>(taskId, columnId)\<close> for an existing column removes \<open>taskId\<close>
  from \<open>tasks\<close> whatever the column, filters it from that column's \<open>taskIds\<close> only, and
  leaves every other column as it was; so when another column lists the id, the id is
  gone from \<open>tasks\<close> and that column still lists it.
\<close>

theorem deleteTask_frame:
  assumes "columns (board st) cid = Some col"
  shows "\<exists>st'. perform now (DeleteTask tid cid) st = Inr st' \<and>
     tasks (board st') = (tasks (board st))(tid := None) \<and>
     columns (board st') cid = Some (col\<lparr>taskIds := filter (\<lambda>i. i \<noteq> tid) (taskIds col)\<rparr>) \<and>
     (\<forall>k. k \<noteq> cid \<longrightarrow> columns (board st') k = columns (board st) k) \<and>
     (\<forall>k other. k \<noteq> cid \<and> columns (board st) k = Some other \<and> tid \<in> set (taskIds other) \<longrightarrow>
        tasks (board st') tid = None \<and> columns (board st') k = Some other)"
  using assms by (simp add: perform_DeleteTask del: perform.simps)

text \<open>
  C10, witness: \<open>a\<close> is listed in \<open>todo\<close>, the request names \<open>done\<close>; afterwards \<open>a\<close> is no
  task and \<open>todo\<close> is still \<open>[a, b]\<close>.
\<close>

theorem deleteTask_frame_witness:
  "columns (board (exampleApp [''a'', ''b''] [''c''])) ''done'' =
     Some \<lparr>id_Column = ''done'', title = ''Done'', color = ''bg-green-100'',
           accent = ''bg-green-500'', taskIds = [''c'']\<rparr> \<and>
   tasks (board (projr (perform 0 (DeleteTask ''a'' ''done'') (exampleApp [''a'', ''b''] [''c''])))) ''a'' = None \<and>
   map_option taskIds
     (columns (board (projr (perform 0 (DeleteTask ''a'' ''done'') (exampleApp [''a'', ''b''] [''c''])))) ''todo'') =
     Some [''a'', ''b'']"
proof -
  have f: "columns (board (exampleApp [''a'', ''b''] [''c''])) ''done'' =
     Some \<lparr>id_Column = ''done'', title = ''Done'', color = ''bg-green-100'',
           accent = ''bg-green-500'', taskIds = [''c'']\<rparr>"
    by (simp add: exampleApp_def example_columns)
  have s: "columns (board (exampleApp [''a'', ''b''] [''c''])) ''todo'' =
     Some \<lparr>id_Column = ''todo'', title = ''To Do'', color = ''bg-blue-100'',
           accent = ''bg-blue-500'', taskIds = [''a'', ''b'']\<rparr>"
    by (simp add: exampleApp_def example_columns)
  from deleteTask_frame[OF f, of 0 "''a''"] f s show ?thesis
    by (auto simp del: perform.simps)
qed

end
